theory Spec2Isabelle
  imports Main
begin

section \<open>Error taxonomy (error.h)\<close>

text \<open>
  The twelve error codes of \<^verbatim>\<open>enum ErrorCode\<close>. Every error class of error.h is
  \<^verbatim>\<open>Error(line, column, code, message)\<close> with a fixed code; the message text plays no
  part in any property below and is left out of the model.
\<close>

datatype ErrorCode =
    MISSING_FILE_ERROR
  | FILE_OPEN_ERROR
  | INDENTATION_ERROR
  | LEXICAL_ERROR
  | RESERVED_KEYWORD_ERROR
  | SYNTAX_ERROR
  | INTERNAL_ERROR
  | SEMANTIC_ERROR
  | INDEX_ERROR
  | EVALUATION_ERROR
  | ZERO_DIVISION
  | TYPE_ERROR

datatype Error = Error (getLineE: nat) (getColumnE: nat) (getErrorCode: ErrorCode)

definition IndentationError :: "nat \<Rightarrow> nat \<Rightarrow> Error" where
  "IndentationError l c = Error l c INDENTATION_ERROR"

definition LexicalError :: "nat \<Rightarrow> nat \<Rightarrow> Error" where
  "LexicalError l c = Error l c LEXICAL_ERROR"

definition SyntaxError :: "nat \<Rightarrow> nat \<Rightarrow> Error" where
  "SyntaxError l c = Error l c SYNTAX_ERROR"

definition InternalError :: "nat \<Rightarrow> nat \<Rightarrow> Error" where
  "InternalError l c = Error l c INTERNAL_ERROR"

definition SemanticError :: "nat \<Rightarrow> nat \<Rightarrow> Error" where
  "SemanticError l c = Error l c SEMANTIC_ERROR"

definition ZeroDivisionError :: "nat \<Rightarrow> nat \<Rightarrow> Error" where
  "ZeroDivisionError l c = Error l c ZERO_DIVISION"

definition TypeError :: "nat \<Rightarrow> nat \<Rightarrow> Error" where
  "TypeError l c = Error l c TYPE_ERROR"

text \<open>
  \<^verbatim>\<open>ErrorName\<close> of error.cpp, the category printed by \<^verbatim>\<open>error()\<close>.
\<close>

fun ErrorName :: "ErrorCode \<Rightarrow> string" where
  "ErrorName MISSING_FILE_ERROR = ''MISSING_FILE_ERROR''"
| "ErrorName FILE_OPEN_ERROR = ''FILE_OPEN_ERROR''"
| "ErrorName INDENTATION_ERROR = ''INDENTATION_ERROR''"
| "ErrorName LEXICAL_ERROR = ''LEXICAL_ERROR''"
| "ErrorName RESERVED_KEYWORD_ERROR = ''RESERVED_KEYWORD_ERROR''"
| "ErrorName SYNTAX_ERROR = ''SYNTAX_ERROR''"
| "ErrorName INTERNAL_ERROR = ''INTERNAL_ERROR''"
| "ErrorName SEMANTIC_ERROR = ''SEMANTIC_ERROR''"
| "ErrorName INDEX_ERROR = ''INDEX_ERROR''"
| "ErrorName EVALUATION_ERROR = ''EVALUATION_ERROR''"
| "ErrorName ZERO_DIVISION = ''ZERO_DIVISION''"
| "ErrorName TYPE_ERROR = ''TYPE_ERROR''"

text \<open>
  How a C++ call can fail to return. \<open>Throw e\<close> is an exception of class \<^verbatim>\<open>Error\<close>,
  which main.cpp catches and hands to \<^verbatim>\<open>error()\<close>. \<open>OutOfRange\<close> is the
  \<^verbatim>\<open>std::out_of_range\<close> of \<^verbatim>\<open>std::stoi\<close>, which no handler of the program catches.
  \<open>Unchecked\<close> marks an access the C++ standard leaves undefined: \<^verbatim>\<open>back()\<close> on an
  empty vector, \<^verbatim>\<open>operator[]\<close> past the end, a \<^verbatim>\<open>static_cast\<close> to the wrong class.
\<close>

datatype signal = Throw Error | OutOfRange | Unchecked

type_synonym 'a result = "signal + 'a"

section \<open>Tokens (token.h, token.cpp)\<close>

datatype ArithmeticOp = ADD | SUB | MUL | DIV
datatype RelationalOp = EQ | LT | GT | LE | GE | NEQ
datatype BoolOp = AND | OR | NOT
datatype ReservedKeyword = IF | ELIF | ELSE | WHILE | CONTINUE | BREAK | LIST | APPEND | PRINT
datatype Punctuation = COL | LPAR | RPAR | PERIOD | LBRACK | RBRACK

text \<open>
  One constructor per token class; the last two arguments are the \<^verbatim>\<open>line\<close> and
  \<^verbatim>\<open>column\<close> handed to the constructor. \<open>IndentationToken True\<close> is an indent,
  \<open>IndentationToken False\<close> a dedent.
\<close>

datatype Token =
    NumberToken int nat nat
  | BoolToken bool nat nat
  | IdToken string nat nat
  | NewLineToken nat nat
  | EndOfFileToken nat nat
  | ArithmeticToken ArithmeticOp nat nat
  | RelationalToken RelationalOp nat nat
  | BoolOpToken BoolOp nat nat
  | ReservedKeywordToken ReservedKeyword nat nat
  | IndentationToken bool nat nat
  | AssignmentToken nat nat
  | PunctuationToken Punctuation nat nat

fun getLine :: "Token \<Rightarrow> nat" where
  "getLine (NumberToken _ l _) = l"
| "getLine (BoolToken _ l _) = l"
| "getLine (IdToken _ l _) = l"
| "getLine (NewLineToken l _) = l"
| "getLine (EndOfFileToken l _) = l"
| "getLine (ArithmeticToken _ l _) = l"
| "getLine (RelationalToken _ l _) = l"
| "getLine (BoolOpToken _ l _) = l"
| "getLine (ReservedKeywordToken _ l _) = l"
| "getLine (IndentationToken _ l _) = l"
| "getLine (AssignmentToken l _) = l"
| "getLine (PunctuationToken _ l _) = l"

fun getColumn :: "Token \<Rightarrow> nat" where
  "getColumn (NumberToken _ _ c) = c"
| "getColumn (BoolToken _ _ c) = c"
| "getColumn (IdToken _ _ c) = c"
| "getColumn (NewLineToken _ c) = c"
| "getColumn (EndOfFileToken _ c) = c"
| "getColumn (ArithmeticToken _ _ c) = c"
| "getColumn (RelationalToken _ _ c) = c"
| "getColumn (BoolOpToken _ _ c) = c"
| "getColumn (ReservedKeywordToken _ _ c) = c"
| "getColumn (IndentationToken _ _ c) = c"
| "getColumn (AssignmentToken _ c) = c"
| "getColumn (PunctuationToken _ _ c) = c"

text \<open>
  \<^verbatim>\<open>std::stoi\<close> on a string of decimal digits, as \<^verbatim>\<open>NumberToken\<close>'s constructor
  calls it: the value, or \<^verbatim>\<open>std::out_of_range\<close> when it does not fit a 32-bit
  \<^verbatim>\<open>int\<close>. (The \<^verbatim>\<open>std::invalid_argument\<close> branch needs a string that does not start
  with a digit, which the lexer never passes.)
\<close>

definition digitValue :: "char \<Rightarrow> int" where
  "digitValue c = int (of_char c) - 48"

definition decimalValue :: "string \<Rightarrow> int" where
  "decimalValue s = foldl (\<lambda>acc c. 10 * acc + digitValue c) 0 s"

definition newNumberToken :: "string \<Rightarrow> nat \<Rightarrow> nat \<Rightarrow> Token result" where
  "newNumberToken s l c =
     (if decimalValue s > 2147483647 then Inl OutOfRange
      else Inr (NumberToken (decimalValue s) l c))"

section \<open>Lexer (lexer.h, lexer.cpp)\<close>

text \<open>
  The members of class \<^verbatim>\<open>Lexer\<close>, named without the trailing underscore; \<open>input\<close>
  (the member \<^verbatim>\<open>file_\<close>) is what is left to read of the input
  stream. Vectors are lists in the vector's own order: \<^verbatim>\<open>push_back\<close> appends,
  \<^verbatim>\<open>back()\<close> is \<^const>\<open>last\<close>, \<^verbatim>\<open>pop_back()\<close> is \<^const>\<open>butlast\<close>.
\<close>

record Lexer =
  input :: string
  indentStack :: "nat list"
  parStack :: "nat list"
  line :: nat
  column :: nat

text \<open>
  The local variables of \<^verbatim>\<open>tokenizeInputFile\<close>, carried from one round of its
  \<^verbatim>\<open>while (getChar(file, ch))\<close> loop to the next, on top of the members.
\<close>

record Frame = Lexer +
  res :: "Token list"
  n_t :: nat
  indent :: bool

definition newLexer :: "string \<Rightarrow> Frame" where
  "newLexer src =
     \<lparr>input = src, indentStack = [0], parStack = [], line = 1, column = 0,
      res = [], n_t = 0, indent = True\<rparr>"

definition getChar :: "'a Lexer_scheme \<Rightarrow> (char \<times> 'a Lexer_scheme) option" where
  "getChar lx =
     (case input lx of
        [] \<Rightarrow> None
      | ch # rest \<Rightarrow>
          if ch = CHR 0x0A
          then Some (ch, lx\<lparr>input := rest, line := line lx + 1, column := 0\<rparr>)
          else Some (ch, lx\<lparr>input := rest, column := column lx + 1\<rparr>))"

text \<open>\<^verbatim>\<open>file.peek()\<close>: the next character, or nothing at end of file.\<close>

definition peek :: "'a Lexer_scheme \<Rightarrow> char option" where
  "peek lx = (case input lx of [] \<Rightarrow> None | ch # _ \<Rightarrow> Some ch)"

definition inRange :: "char \<Rightarrow> char \<Rightarrow> char \<Rightarrow> bool" where
  "inRange lo hi c = ((of_char lo :: nat) \<le> of_char c \<and> (of_char c :: nat) \<le> of_char hi)"

definition isLetter :: "char \<Rightarrow> bool" where
  "isLetter c = (inRange CHR ''a'' CHR ''z'' c \<or> inRange CHR ''A'' CHR ''Z'' c)"

definition isDigit :: "char \<Rightarrow> bool" where
  "isDigit c = inRange CHR ''0'' CHR ''9'' c"

definition peekIs :: "(char \<Rightarrow> bool) \<Rightarrow> 'a Lexer_scheme \<Rightarrow> bool" where
  "peekIs p lx = (case peek lx of None \<Rightarrow> False | Some c \<Rightarrow> p c)"

text \<open>
  The two inner loops that read the rest of a word or of a number:
  \<^verbatim>\<open>while (peek is p) { getChar(file, ch); word += ch; }\<close>.
\<close>

function readWhile ::
  "(char \<Rightarrow> bool) \<Rightarrow> string \<Rightarrow> 'a Lexer_scheme \<Rightarrow> string \<times> 'a Lexer_scheme" where
  "readWhile p word lx =
     (if peekIs p lx
      then (case getChar lx of
              None \<Rightarrow> (word, lx)
            | Some (ch, lx') \<Rightarrow> readWhile p (word @ [ch]) lx')
      else (word, lx))"
  by pat_completeness auto
termination
  by (relation "measure (\<lambda>(p, word, lx). length (input lx))")
     (auto simp: getChar_def split: list.splits if_splits)

declare readWhile.simps [simp del]


text \<open>Sequencing of calls that may not return: the first failure is the result.\<close>

definition bindR :: "'a result \<Rightarrow> ('a \<Rightarrow> 'b result) \<Rightarrow> 'b result" where
  "bindR r f = (case r of Inl e \<Rightarrow> Inl e | Inr x \<Rightarrow> f x)"

datatype TokenType =
    NUMBER_TOKEN
  | BOOL_TOKEN
  | ID_TOKEN
  | NEWLINE_TOKEN
  | EOF_TOKEN
  | ARITHMETIC_TOKEN
  | RELATIONAL_TOKEN
  | BOOLOP_TOKEN
  | RESERVEDKEYWORD_TOKEN
  | INDENTATION_TOKEN
  | ASSIGNMENT_TOKEN
  | PUNCTUATION_TOKEN

fun getType :: "Token \<Rightarrow> TokenType" where
  "getType (NumberToken _ _ _) = NUMBER_TOKEN"
| "getType (BoolToken _ _ _) = BOOL_TOKEN"
| "getType (IdToken _ _ _) = ID_TOKEN"
| "getType (NewLineToken _ _) = NEWLINE_TOKEN"
| "getType (EndOfFileToken _ _) = EOF_TOKEN"
| "getType (ArithmeticToken _ _ _) = ARITHMETIC_TOKEN"
| "getType (RelationalToken _ _ _) = RELATIONAL_TOKEN"
| "getType (BoolOpToken _ _ _) = BOOLOP_TOKEN"
| "getType (ReservedKeywordToken _ _ _) = RESERVEDKEYWORD_TOKEN"
| "getType (IndentationToken _ _ _) = INDENTATION_TOKEN"
| "getType (AssignmentToken _ _) = ASSIGNMENT_TOKEN"
| "getType (PunctuationToken _ _ _) = PUNCTUATION_TOKEN"

text \<open>
  The constructors of \<^verbatim>\<open>BoolOpToken\<close> and \<^verbatim>\<open>ReservedKeywordToken\<close> take the
  word and throw \<^verbatim>\<open>InternalError\<close> on a word they do not know.
\<close>

definition newBoolOpToken :: "string \<Rightarrow> nat \<Rightarrow> nat \<Rightarrow> Token result" where
  "newBoolOpToken s l c =
     (if s = ''and'' then Inr (BoolOpToken AND l c)
      else if s = ''or'' then Inr (BoolOpToken OR l c)
      else if s = ''not'' then Inr (BoolOpToken NOT l c)
      else Inl (Throw (InternalError l c)))"

definition newReservedKeywordToken :: "string \<Rightarrow> nat \<Rightarrow> nat \<Rightarrow> Token result" where
  "newReservedKeywordToken word l c =
     (if word = ''if'' then Inr (ReservedKeywordToken IF l c)
      else if word = ''elif'' then Inr (ReservedKeywordToken ELIF l c)
      else if word = ''else'' then Inr (ReservedKeywordToken ELSE l c)
      else if word = ''while'' then Inr (ReservedKeywordToken WHILE l c)
      else if word = ''continue'' then Inr (ReservedKeywordToken CONTINUE l c)
      else if word = ''break'' then Inr (ReservedKeywordToken BREAK l c)
      else if word = ''list'' then Inr (ReservedKeywordToken LIST l c)
      else if word = ''append'' then Inr (ReservedKeywordToken APPEND l c)
      else if word = ''print'' then Inr (ReservedKeywordToken PRINT l c)
      else Inl (Throw (InternalError l c)))"

definition push_back :: "Token \<Rightarrow> Frame \<Rightarrow> Frame" where
  "push_back t st = st\<lparr>res := res st @ [t]\<rparr>"

subsection \<open>Indentation handling\<close>

text \<open>
  \<^verbatim>\<open>while (n_t < indentStack_.back()) { indentStack_.pop_back(); res.push_back(dedent); }\<close>
\<close>

function dedentLoop :: "Frame \<Rightarrow> Frame result" where
  "dedentLoop st =
     (case indentStack st of
        [] \<Rightarrow> Inl Unchecked
      | _ # _ \<Rightarrow>
          if n_t st < last (indentStack st)
          then dedentLoop
                 (push_back (IndentationToken False (line st) (column st))
                    (st\<lparr>indentStack := butlast (indentStack st)\<rparr>))
          else Inr st)"
  by pat_completeness auto
termination
  by (relation "measure (\<lambda>st. length (indentStack st))") (auto simp: push_back_def)

declare dedentLoop.simps [simp del]

text \<open>
  What the loop body does next: \<open>Continue\<close> is the C++ \<^verbatim>\<open>continue\<close> (on to the next
  character), \<open>Next\<close> falls through to the statements below.
\<close>

datatype 'a flow = Continue 'a | Next 'a

text \<open>
  The first \<^verbatim>\<open>if / else if / else if\<close> of the loop body, run on the character
  \<open>ch\<close> that \<^verbatim>\<open>getChar\<close> has just read (so \<open>line\<close> and \<open>column\<close> already count it).
\<close>

definition indentation :: "char \<Rightarrow> Frame \<Rightarrow> Frame flow result" where
  "indentation ch st =
     (if (ch = CHR '' '' \<or> ch = CHR 0x09) \<and>
         (res st = [] \<or> (getType (last (res st)) = NEWLINE_TOKEN \<and> indent st))
      then Inr (Continue (st\<lparr>n_t := (if ch = CHR 0x09 then n_t st + 1 + 3 else n_t st + 1)\<rparr>))
      else if (ch \<noteq> CHR '' '' \<and> ch \<noteq> CHR 0x09 \<and> ch \<noteq> CHR 0x0A \<and> ch \<noteq> CHR 0x0D) \<and> indent st
      then (let st1 = st\<lparr>indent := False\<rparr> in
            case indentStack st1 of
              [] \<Rightarrow> Inl Unchecked
            | _ # _ \<Rightarrow>
                if n_t st1 > last (indentStack st1)
                then Inr (Next ((push_back (IndentationToken True (line st1) (column st1))
                                  (st1\<lparr>indentStack := indentStack st1 @ [n_t st1]\<rparr>))\<lparr>n_t := 0\<rparr>))
                else if n_t st1 < last (indentStack st1)
                then bindR (dedentLoop st1) (\<lambda>st2.
                       case indentStack st2 of
                         [] \<Rightarrow> Inl Unchecked
                       | _ # _ \<Rightarrow>
                           if n_t st2 \<noteq> last (indentStack st2)
                           then Inl (Throw (IndentationError (line st2) (column st2)))
                           else Inr (Next (st2\<lparr>n_t := 0\<rparr>)))
                else Inr (Next (st1\<lparr>n_t := 0\<rparr>)))
      else if ch = CHR 0x0A \<or> ch = CHR 0x0D
      then Inr (Next (st\<lparr>indent := True, n_t := 0\<rparr>))
      else Inr (Next st))"

subsection \<open>Lexemes\<close>

text \<open>A token at the current \<open>(line, column)\<close>, pushed on \<open>res\<close>.\<close>

definition emit :: "(nat \<Rightarrow> nat \<Rightarrow> Token) \<Rightarrow> Frame \<Rightarrow> Frame" where
  "emit mk st = push_back (mk (line st) (column st)) st"

text \<open>\<^verbatim>\<open>getChar(file, ch)\<close> after a successful \<^verbatim>\<open>peek\<close>: the character is dropped.\<close>

definition consume :: "Frame \<Rightarrow> Frame" where
  "consume st = (case getChar st of None \<Rightarrow> st | Some (_, st') \<Rightarrow> st')"

definition word_branch :: "char \<Rightarrow> Frame \<Rightarrow> Frame result" where
  "word_branch ch st =
     (let (word, st1) = readWhile (\<lambda>c. isLetter c \<or> isDigit c) [ch] st in
      if word = ''if'' \<or> word = ''elif'' \<or> word = ''else'' \<or> word = ''while'' \<or>
         word = ''continue'' \<or> word = ''break'' \<or> word = ''list'' \<or> word = ''append'' \<or>
         word = ''print''
      then bindR (newReservedKeywordToken word (line st1) (column st1))
                 (\<lambda>t. Inr (push_back t st1))
      else if word = ''and'' \<or> word = ''or'' \<or> word = ''not''
      then bindR (newBoolOpToken word (line st1) (column st1)) (\<lambda>t. Inr (push_back t st1))
      else if word = ''True'' then Inr (emit (BoolToken True) st1)
      else if word = ''False'' then Inr (emit (BoolToken False) st1)
      else Inr (emit (IdToken word) st1))"

definition number_branch :: "char \<Rightarrow> Frame \<Rightarrow> Frame result" where
  "number_branch ch st =
     (let (numStr, st1) = readWhile isDigit [ch] st in
      bindR (newNumberToken numStr (line st1) (column st1)) (\<lambda>t. Inr (push_back t st1)))"

text \<open>
  The rest of the loop body, from \<^verbatim>\<open>// Check if the character is a letter\<close> to its
  end. Every branch of the source ends in \<^verbatim>\<open>continue\<close> or \<^verbatim>\<open>throw\<close>; a space
  falls through all of them.
\<close>

definition lexeme :: "char \<Rightarrow> Frame \<Rightarrow> Frame result" where
  "lexeme ch st =
     (if isLetter ch then word_branch ch st
      else if inRange CHR ''1'' CHR ''9'' ch then number_branch ch st
      else if ch = CHR 0x0A \<or> ch = CHR 0x0D then Inr ((emit NewLineToken st)\<lparr>indent := True\<rparr>)
      else if ch = CHR ''0''
      then (if peekIs isDigit st then Inl (Throw (LexicalError (line st) (column st)))
            else bindR (newNumberToken ''0'' (line st) (column st)) (\<lambda>t. Inr (push_back t st)))
      else if ch = CHR ''=''
      then (if peek st = Some CHR ''='' then Inr (emit (RelationalToken EQ) (consume st))
            else Inr (emit AssignmentToken st))
      else if ch = CHR ''!'' \<and> peek st = Some CHR ''=''
      then Inr (emit (RelationalToken NEQ) (consume st))
      else if ch = CHR ''<''
      then (if peek st = Some CHR ''='' then Inr (emit (RelationalToken LE) (consume st))
            else Inr (emit (RelationalToken LT) st))
      else if ch = CHR ''>''
      then (if peek st = Some CHR ''='' then Inr (emit (RelationalToken GE) (consume st))
            else Inr (emit (RelationalToken GT) st))
      else if ch = CHR ''+'' then Inr (emit (ArithmeticToken ADD) st)
      else if ch = CHR ''-'' then Inr (emit (ArithmeticToken SUB) st)
      else if ch = CHR ''*'' then Inr (emit (ArithmeticToken MUL) st)
      else if ch = CHR ''/''
      then (if peek st = Some CHR ''/'' then Inr (emit (ArithmeticToken DIV) (consume st))
            else Inl (Throw (LexicalError (line st) (column st))))
      else if ch = CHR '':'' then Inr (emit (PunctuationToken COL) st)
      else if ch = CHR ''.'' then Inr (emit (PunctuationToken PERIOD) st)
      else if ch = CHR ''(''
      then Inr ((emit (PunctuationToken LPAR) st)\<lparr>parStack := parStack st @ [1]\<rparr>)
      else if ch = CHR '')''
      then (let st1 = emit (PunctuationToken RPAR) st in
            if parStack st1 = [] \<or> last (parStack st1) = 0
            then Inl (Throw (LexicalError (line st1) (column st1)))
            else Inr (st1\<lparr>parStack := butlast (parStack st1)\<rparr>))
      else if ch = CHR ''[''
      then Inr ((emit (PunctuationToken LBRACK) st)\<lparr>parStack := parStack st @ [0]\<rparr>)
      else if ch = CHR '']''
      then (let st1 = emit (PunctuationToken RBRACK) st in
            case parStack st1 of
              [] \<Rightarrow> Inl Unchecked
            | _ # _ \<Rightarrow>
                if last (parStack st1) = 1 \<or> parStack st1 = []
                then Inl (Throw (LexicalError (line st1) (column st1)))
                else Inr (st1\<lparr>parStack := butlast (parStack st1)\<rparr>))
      else if ch \<noteq> CHR '' '' then Inl (Throw (LexicalError (line st) (column st)))
      else Inr st)"

text \<open>One round of the loop body on the character just read.\<close>

definition iteration :: "char \<Rightarrow> Frame \<Rightarrow> Frame result" where
  "iteration ch st =
     bindR (indentation ch st)
       (\<lambda>fl. case fl of Continue st1 \<Rightarrow> Inr st1 | Next st1 \<Rightarrow> lexeme ch st1)"


subsection \<open>The main loop and the end of file\<close>

text \<open>A round of the loop never gives characters back, so the loop ends.\<close>

lemma getChar_input: "getChar st = Some (ch, st1) \<Longrightarrow> input st = ch # input st1"
  by (auto simp: getChar_def split: list.splits if_splits)

lemma readWhile_input: "readWhile p w st = (w', st') \<Longrightarrow> length (input st') \<le> length (input st)"
proof (induction p w st rule: readWhile.induct)
  case (1 p word lx)
  show ?case
  proof (cases "peekIs p lx")
    case False
    with "1.prems" show ?thesis by (simp add: readWhile.simps)
  next
    case True
    show ?thesis
    proof (cases "getChar lx")
      case None
      with True "1.prems" show ?thesis by (simp add: readWhile.simps)
    next
      case (Some a)
      obtain ch lx1 where a: "a = (ch, lx1)" by (cases a)
      from True Some a "1.prems" have "readWhile p (word @ [ch]) lx1 = (w', st')"
        by (simp add: readWhile.simps)
      with "1.IH" True Some a have "length (input st') \<le> length (input lx1)" by simp
      moreover from Some a have "input lx = ch # input lx1" by (simp add: getChar_input)
      ultimately show ?thesis by simp
    qed
  qed
qed

lemma dedentLoop_input: "dedentLoop st = Inr st' \<Longrightarrow> input st' = input st"
proof (induction st rule: dedentLoop.induct)
  case (1 st)
  then show ?case
    by (subst (asm) (2) dedentLoop.simps) (auto simp: push_back_def split: list.splits if_splits)
qed

lemma indentation_input:
  "indentation ch st = Inr fl \<Longrightarrow> input (case fl of Continue s \<Rightarrow> s | Next s \<Rightarrow> s) = input st"
  by (auto simp: indentation_def bindR_def Let_def push_back_def
           split: if_splits list.splits sum.splits dest!: dedentLoop_input)

lemma consume_input: "length (input (consume st)) \<le> length (input st)"
  by (auto simp: consume_def getChar_def split: list.splits option.splits)


lemma input_push_back [simp]: "input (push_back t st) = input st"
  by (simp add: push_back_def)

lemma input_emit [simp]: "input (emit mk st) = input st"
  by (simp add: emit_def)

definition shorter :: "Frame \<Rightarrow> Frame result \<Rightarrow> bool" where
  "shorter st r = (case r of Inl _ \<Rightarrow> True | Inr st' \<Rightarrow> length (input st') \<le> length (input st))"

lemma shorter_simps [simp]:
  "shorter st (Inl e)"
  "shorter st (Inr st') = (length (input st') \<le> length (input st))"
  by (simp_all add: shorter_def)

lemma shorter_bindR_push:
  "length (input st1) \<le> length (input st) \<Longrightarrow> shorter st (bindR r (\<lambda>t. Inr (push_back t st1)))"
  by (cases r) (simp_all add: bindR_def)

lemma word_branch_shorter: "shorter st (word_branch ch st)"
proof -
  obtain word st1 where rw: "readWhile (\<lambda>c. isLetter c \<or> isDigit c) [ch] st = (word, st1)"
    by (cases "readWhile (\<lambda>c. isLetter c \<or> isDigit c) [ch] st")
  from readWhile_input [OF rw] show ?thesis
    by (simp add: word_branch_def rw shorter_bindR_push)
qed

lemma number_branch_shorter: "shorter st (number_branch ch st)"
proof -
  obtain numStr st1 where rw: "readWhile isDigit [ch] st = (numStr, st1)"
    by (cases "readWhile isDigit [ch] st")
  from readWhile_input [OF rw] show ?thesis
    by (simp add: number_branch_def rw shorter_bindR_push)
qed

lemma lexeme_shorter: "shorter st (lexeme ch st)"
  unfolding lexeme_def
  by (simp add: Let_def word_branch_shorter number_branch_shorter shorter_bindR_push
        consume_input split: list.split)

lemma lexeme_input: "lexeme ch st = Inr st' \<Longrightarrow> length (input st') \<le> length (input st)"
  using lexeme_shorter [of st ch] by simp

lemma iteration_input:
  assumes "iteration ch st = Inr st'"
  shows "length (input st') \<le> length (input st)"
proof (cases "indentation ch st")
  case (Inl e)
  with assms show ?thesis by (simp add: iteration_def bindR_def)
next
  case (Inr fl)
  show ?thesis
  proof (cases fl)
    case (Continue s)
    with Inr assms indentation_input [OF Inr] show ?thesis
      by (simp add: iteration_def bindR_def)
  next
    case (Next s)
    with Inr assms have "lexeme ch s = Inr st'" by (simp add: iteration_def bindR_def)
    from lexeme_input [OF this] indentation_input [OF Inr] Next show ?thesis by simp
  qed
qed

text \<open>\<^verbatim>\<open>while (getChar(file, ch)) { ... }\<close>\<close>

function tokenizeLoop :: "Frame \<Rightarrow> Frame result" where
  "tokenizeLoop st =
     (case getChar st of
        None \<Rightarrow> Inr st
      | Some (ch, st1) \<Rightarrow>
          (case iteration ch st1 of
             Inl e \<Rightarrow> Inl e
           | Inr st2 \<Rightarrow> tokenizeLoop st2))"
  by pat_completeness auto
termination
proof (relation "measure (\<lambda>st. length (input st))")
  show "wf (measure (\<lambda>st. length (input st)))" by simp
next
  fix st :: Frame and x2 ch st1 st2
  assume "getChar st = Some x2" and "(ch, st1) = x2" and "iteration ch st1 = Inr st2"
  then have "input st = ch # input st1" and "length (input st2) \<le> length (input st1)"
    by (auto simp: getChar_input iteration_input)
  then show "(st2, st) \<in> measure (\<lambda>st. length (input st))" by simp
qed

declare tokenizeLoop.simps [simp del]

text \<open>
  \<^verbatim>\<open>while (indentStack_.size() > 1) { indentStack_.pop_back(); res.push_back(dedent); }\<close>
\<close>

function drainIndentStack :: "Frame \<Rightarrow> Frame" where
  "drainIndentStack st =
     (if length (indentStack st) > 1
      then drainIndentStack
             (push_back (IndentationToken False (line st) (column st))
                (st\<lparr>indentStack := butlast (indentStack st)\<rparr>))
      else st)"
  by pat_completeness auto
termination
  by (relation "measure (\<lambda>st. length (indentStack st))") (auto simp: push_back_def)

declare drainIndentStack.simps [simp del]

text \<open>
  \<^verbatim>\<open>Lexer::tokenizeInputFile\<close> on a fresh lexer. The loop has ended because
  \<^verbatim>\<open>file.get\<close> failed at the end of the input, so \<^verbatim>\<open>file.eof()\<close> holds and
  the end-of-file token is pushed.
\<close>

definition tokenizeInputFile :: "string \<Rightarrow> Token list result" where
  "tokenizeInputFile src =
     bindR (tokenizeLoop (newLexer src)) (\<lambda>st.
       if parStack st \<noteq> [] then Inl (Throw (LexicalError (line st) (column st)))
       else Inr (res (emit EndOfFileToken (drainIndentStack st))))"

section \<open>Syntax tree (syntax.h, syntax.cpp)\<close>

text \<open>
  Every node of the tree keeps \<^verbatim>\<open>position_\<close>, an index into the token vector, and
  \<^verbatim>\<open>getLine()\<close> and \<^verbatim>\<open>getColumn()\<close> read \<^verbatim>\<open>tokens_[position_]\<close>. The token vector
  never changes after lexing, so the model keeps the line and column of that token in the
  node, as its last argument.

  The class hierarchy below \<^verbatim>\<open>Expression\<close> (Join, Equality, Relation, NumExpr, Term,
  Unary, Factor, Location) only carries type tags; the evaluator tells the classes that
  can be instantiated apart by those tags. They are the constructors of one datatype.
\<close>

type_synonym pos = "nat \<times> nat"

datatype EqualExprType = EQ_EXPR | NEQ_EXPR
datatype ComparativeRelationType = LT_REL | LE_REL | GT_REL | GE_REL
datatype AritExprType = ADD_EXPR | SUB_EXPR
datatype MulDivTermType = MUL_TERM | DIV_TERM

datatype Expression =
    OrExpr Expression Expression pos
  | AndExpr Expression Expression pos
  | EqualExpr Expression EqualExprType Expression pos
  | ComparativeRelation Expression ComparativeRelationType Expression pos
  | AritExpr Expression AritExprType Expression pos
  | MulDivTerm Expression MulDivTermType Expression pos
  | NotUnary Expression pos
  | MinusUnary Expression pos
  | ExpressionFactor Expression pos
  | NumberFactor int pos
  | BoolFactor bool pos
  | IdLocation string pos
  | ListElementLocation string Expression pos

fun posOf :: "Expression \<Rightarrow> pos" where
  "posOf (OrExpr _ _ p) = p"
| "posOf (AndExpr _ _ p) = p"
| "posOf (EqualExpr _ _ _ p) = p"
| "posOf (ComparativeRelation _ _ _ p) = p"
| "posOf (AritExpr _ _ _ p) = p"
| "posOf (MulDivTerm _ _ _ p) = p"
| "posOf (NotUnary _ p) = p"
| "posOf (MinusUnary _ p) = p"
| "posOf (ExpressionFactor _ p) = p"
| "posOf (NumberFactor _ p) = p"
| "posOf (BoolFactor _ p) = p"
| "posOf (IdLocation _ p) = p"
| "posOf (ListElementLocation _ _ p) = p"

text \<open>
  \<^verbatim>\<open>CompoundStatement\<close> is built by \<^verbatim>\<open>parseCompoundStatement\<close> only, with the
  statement type \<^verbatim>\<open>IF_STMT\<close> or \<^verbatim>\<open>WHILE_STMT\<close>. The location of an assignment is a
  \<^verbatim>\<open>Location*\<close>, that is, an \<open>IdLocation\<close> or a \<open>ListElementLocation\<close>.
\<close>

datatype CompoundType = IF_STMT | WHILE_STMT

datatype Statement =
    AssignmentStatement Expression Expression pos
  | ListDeclarationStatement string pos
  | ListAppendStatement string Expression pos
  | BreakStatement pos
  | ContinueStatement pos
  | PrintStatement Expression pos
  | CompoundStatement CompoundType Expression "Block list" pos
and Block =
    SimpleBlock "Statement list" pos
  | ElifBlock Expression Block pos
  | ElseBlock Block pos

datatype Program = Program "Statement list"

section \<open>Symbol table (semantics.h, semantics.cpp)\<close>

datatype Types = TYPE_BOOL | TYPE_INT | TYPE_UNDEFINED

text \<open>
  \<^verbatim>\<open>EvaluatedElement\<close>: a type tag with an \<^verbatim>\<open>int\<close> or a \<^verbatim>\<open>bool\<close>. The getters throw
  \<^verbatim>\<open>InternalError(0, 0)\<close> on the wrong tag.
\<close>

datatype EvaluatedElement = IntElement int | BoolElement bool

fun getTypeE :: "EvaluatedElement \<Rightarrow> Types" where
  "getTypeE (IntElement _) = TYPE_INT"
| "getTypeE (BoolElement _) = TYPE_BOOL"

fun getIntValue :: "EvaluatedElement \<Rightarrow> int result" where
  "getIntValue (IntElement i) = Inr i"
| "getIntValue (BoolElement _) = Inl (Throw (InternalError 0 0))"

fun getBoolValue :: "EvaluatedElement \<Rightarrow> bool result" where
  "getBoolValue (BoolElement b) = Inr b"
| "getBoolValue (IntElement _) = Inl (Throw (InternalError 0 0))"

text \<open>
  The three maps of \<^verbatim>\<open>SymbolTable\<close>. The C++ maps hold pointers to heap cells that
  nothing else refers to; the model holds the values.
\<close>

record SymbolTable =
  intVariables :: "string \<rightharpoonup> int"
  boolVariables :: "string \<rightharpoonup> bool"
  lists :: "string \<rightharpoonup> EvaluatedElement list"

definition newSymbolTable :: SymbolTable where
  "newSymbolTable = \<lparr>intVariables = Map.empty, boolVariables = Map.empty, lists = Map.empty\<rparr>"

definition isVariableDefined :: "SymbolTable \<Rightarrow> string \<Rightarrow> bool" where
  "isVariableDefined st ident = (intVariables st ident \<noteq> None \<or> boolVariables st ident \<noteq> None)"

definition addVariableInt :: "string \<Rightarrow> int \<Rightarrow> SymbolTable \<Rightarrow> SymbolTable result" where
  "addVariableInt ident element st =
     (if isVariableDefined st ident then Inl (Throw (InternalError 0 0))
      else Inr (st\<lparr>intVariables := (intVariables st)(ident \<mapsto> element)\<rparr>))"

definition addVariableBool :: "string \<Rightarrow> bool \<Rightarrow> SymbolTable \<Rightarrow> SymbolTable result" where
  "addVariableBool ident element st =
     (if isVariableDefined st ident then Inl (Throw (InternalError 0 0))
      else Inr (st\<lparr>boolVariables := (boolVariables st)(ident \<mapsto> element)\<rparr>))"

definition updateVariableInt :: "string \<Rightarrow> int \<Rightarrow> SymbolTable \<Rightarrow> SymbolTable result" where
  "updateVariableInt ident element st =
     (if intVariables st ident \<noteq> None
      then Inr (st\<lparr>intVariables := (intVariables st)(ident \<mapsto> element)\<rparr>)
      else if boolVariables st ident \<noteq> None
      then Inr (st\<lparr>boolVariables := (boolVariables st)(ident := None),
                   intVariables := (intVariables st)(ident \<mapsto> element)\<rparr>)
      else Inl (Throw (InternalError 0 0)))"

definition updateVariableBool :: "string \<Rightarrow> bool \<Rightarrow> SymbolTable \<Rightarrow> SymbolTable result" where
  "updateVariableBool ident element st =
     (if boolVariables st ident \<noteq> None
      then Inr (st\<lparr>boolVariables := (boolVariables st)(ident \<mapsto> element)\<rparr>)
      else if intVariables st ident \<noteq> None
      then Inr (st\<lparr>intVariables := (intVariables st)(ident := None),
                   boolVariables := (boolVariables st)(ident \<mapsto> element)\<rparr>)
      else Inl (Throw (InternalError 0 0)))"

definition getVariableValue :: "SymbolTable \<Rightarrow> string \<Rightarrow> EvaluatedElement result" where
  "getVariableValue st ident =
     (case intVariables st ident of
        Some i \<Rightarrow> Inr (IntElement i)
      | None \<Rightarrow>
          (case boolVariables st ident of
             Some b \<Rightarrow> Inr (BoolElement b)
           | None \<Rightarrow> Inl (Throw (InternalError 0 0))))"

definition isListDefined :: "SymbolTable \<Rightarrow> string \<Rightarrow> bool" where
  "isListDefined st ident = (lists st ident \<noteq> None)"

definition addList :: "string \<Rightarrow> SymbolTable \<Rightarrow> SymbolTable" where
  "addList ident st = (if isListDefined st ident then st else st\<lparr>lists := (lists st)(ident \<mapsto> [])\<rparr>)"

definition appendToList :: "string \<Rightarrow> EvaluatedElement \<Rightarrow> SymbolTable \<Rightarrow> SymbolTable result" where
  "appendToList ident element st =
     (case lists st ident of
        None \<Rightarrow> Inl (Throw (InternalError 0 0))
      | Some xs \<Rightarrow> Inr (st\<lparr>lists := (lists st)(ident \<mapsto> xs @ [element])\<rparr>))"

definition updateListElement ::
  "string \<Rightarrow> int \<Rightarrow> EvaluatedElement \<Rightarrow> SymbolTable \<Rightarrow> SymbolTable result" where
  "updateListElement ident index element st =
     (case lists st ident of
        None \<Rightarrow> Inl (Throw (InternalError 0 0))
      | Some xs \<Rightarrow>
          if index < 0 \<or> index \<ge> int (length xs) then Inl (Throw (InternalError 0 0))
          else Inr (st\<lparr>lists := (lists st)(ident \<mapsto> xs[nat index := element])\<rparr>))"

definition getListElement :: "SymbolTable \<Rightarrow> string \<Rightarrow> int \<Rightarrow> EvaluatedElement result" where
  "getListElement st ident index =
     (case lists st ident of
        None \<Rightarrow> Inl (Throw (InternalError 0 0))
      | Some xs \<Rightarrow>
          if index < 0 \<or> index \<ge> int (length xs) then Inl (Throw (InternalError 0 0))
          else Inr (xs ! nat index))"

definition getListSize :: "SymbolTable \<Rightarrow> string \<Rightarrow> int result" where
  "getListSize st ident =
     (case lists st ident of
        None \<Rightarrow> Inl (Throw (InternalError 0 0))
      | Some xs \<Rightarrow> Inr (int (length xs)))"

text \<open>\<^verbatim>\<open>SymbolTable::clear\<close>: the list is emptied and its entry erased.\<close>

definition clear :: "string \<Rightarrow> SymbolTable \<Rightarrow> SymbolTable result" where
  "clear ident st =
     (if \<not> isListDefined st ident then Inl (Throw (InternalError 0 0))
      else Inr (st\<lparr>lists := (lists st)(ident := None)\<rparr>))"

section \<open>Evaluator (visitor.h, visitor.cpp)\<close>

subsection \<open>Expressions\<close>

text \<open>
  The members of \<^verbatim>\<open>Visitor\<close>, and \<open>cout\<close>: the lines written to \<^verbatim>\<open>std::cout\<close> so far.
\<close>

record Visitor =
  symbolTable :: SymbolTable
  conditionMetStack :: "bool list"
  loopStack :: "bool list"
  cout :: "string list"

definition newVisitor :: Visitor where
  "newVisitor = \<lparr>symbolTable = newSymbolTable, conditionMetStack = [], loopStack = [], cout = []\<rparr>"

text \<open>The wrappers of \<^verbatim>\<open>Visitor\<close> around the symbol table that check and throw first.\<close>

definition Visitor_getVariableValue :: "SymbolTable \<Rightarrow> string \<Rightarrow> pos \<Rightarrow> EvaluatedElement result" where
  "Visitor_getVariableValue st ident p =
     (if \<not> isVariableDefined st ident then Inl (Throw (InternalError (fst p) (snd p)))
      else getVariableValue st ident)"

definition Visitor_getListElement ::
  "SymbolTable \<Rightarrow> string \<Rightarrow> int \<Rightarrow> pos \<Rightarrow> EvaluatedElement result" where
  "Visitor_getListElement st ident index p =
     (if \<not> isListDefined st ident then Inl (Throw (InternalError (fst p) (snd p)))
      else getListElement st ident index)"

definition Visitor_getListSize :: "SymbolTable \<Rightarrow> string \<Rightarrow> pos \<Rightarrow> int result" where
  "Visitor_getListSize st ident p =
     (if \<not> isListDefined st ident then Inl (Throw (InternalError (fst p) (snd p)))
      else getListSize st ident)"

text \<open>
  Arithmetic on \<^verbatim>\<open>int\<close>. A result that does not fit 32 bits is signed overflow, which
  C++ leaves undefined. \<open>truncDiv\<close> is the division of C++, rounding towards zero.
\<close>

definition newInt :: "int \<Rightarrow> EvaluatedElement result" where
  "newInt x = (if - 2147483648 \<le> x \<and> x \<le> 2147483647 then Inr (IntElement x) else Inl Unchecked)"

definition truncDiv :: "int \<Rightarrow> int \<Rightarrow> int" where
  "truncDiv a b = sgn a * sgn b * (\<bar>a\<bar> div \<bar>b\<bar>)"

definition throwAt :: "(nat \<Rightarrow> nat \<Rightarrow> Error) \<Rightarrow> pos \<Rightarrow> 'a result" where
  "throwAt mk p = Inl (Throw (mk (fst p) (snd p)))"

text \<open>
  \<^verbatim>\<open>Visitor::getDataType\<close> and \<^verbatim>\<open>Visitor::eval\<close>. Neither changes the visitor; both
  read the symbol table \<open>st\<close>. \<^verbatim>\<open>getDataType\<close> of an indexed location evaluates the
  index, so the two are mutually recursive.
\<close>

fun getDataType :: "SymbolTable \<Rightarrow> Expression \<Rightarrow> Types result"
and eval :: "SymbolTable \<Rightarrow> Expression \<Rightarrow> EvaluatedElement result" where
  "getDataType st (OrExpr left right p) =
     bindR (getDataType st left) (\<lambda>leftType.
     bindR (getDataType st right) (\<lambda>rightType.
       if leftType = TYPE_BOOL \<and> rightType = TYPE_BOOL then Inr TYPE_BOOL
       else Inr TYPE_UNDEFINED))"
| "getDataType st (AndExpr left right p) =
     bindR (getDataType st left) (\<lambda>leftType.
     bindR (getDataType st right) (\<lambda>rightType.
       if leftType = TYPE_BOOL \<and> rightType = TYPE_BOOL then Inr TYPE_BOOL
       else Inr TYPE_UNDEFINED))"
| "getDataType st (EqualExpr left op right p) =
     bindR (getDataType st left) (\<lambda>leftType.
     bindR (getDataType st right) (\<lambda>rightType.
       if leftType = TYPE_UNDEFINED \<or> rightType = TYPE_UNDEFINED \<or> leftType \<noteq> rightType
       then Inr TYPE_UNDEFINED
       else Inr TYPE_BOOL))"
| "getDataType st (ComparativeRelation left op right p) =
     bindR (getDataType st left) (\<lambda>leftType.
     bindR (getDataType st right) (\<lambda>rightType.
       if leftType = TYPE_INT \<and> rightType = TYPE_INT then Inr TYPE_BOOL
       else Inr TYPE_UNDEFINED))"
| "getDataType st (AritExpr left op right p) =
     bindR (getDataType st left) (\<lambda>leftType.
     bindR (getDataType st right) (\<lambda>rightType.
       if leftType = TYPE_INT \<and> rightType = TYPE_INT then Inr TYPE_INT
       else Inr TYPE_UNDEFINED))"
| "getDataType st (MulDivTerm left op right p) =
     bindR (getDataType st left) (\<lambda>leftType.
     bindR (getDataType st right) (\<lambda>rightType.
       if leftType = TYPE_INT \<and> rightType = TYPE_INT then Inr TYPE_INT
       else Inr TYPE_UNDEFINED))"
| "getDataType st (NotUnary unary p) =
     bindR (getDataType st unary) (\<lambda>unaryType.
       if unaryType = TYPE_BOOL then Inr TYPE_BOOL else Inr TYPE_UNDEFINED)"
| "getDataType st (MinusUnary unary p) =
     bindR (getDataType st unary) (\<lambda>unaryType.
       if unaryType = TYPE_INT then Inr TYPE_INT else Inr TYPE_UNDEFINED)"
| "getDataType st (ExpressionFactor e p) = getDataType st e"
| "getDataType st (NumberFactor n p) = Inr TYPE_INT"
| "getDataType st (BoolFactor b p) = Inr TYPE_BOOL"
| "getDataType st (IdLocation ident p) =
     (if \<not> isVariableDefined st ident then throwAt SemanticError p
      else bindR (Visitor_getVariableValue st ident p) (\<lambda>v. Inr (getTypeE v)))"
| "getDataType st (ListElementLocation ident index p) =
     (if \<not> isListDefined st ident then throwAt SemanticError p
      else bindR (eval st index) (\<lambda>indexValue.
           bindR (getIntValue indexValue) (\<lambda>i.
           bindR (getListElement st ident i) (\<lambda>v. Inr (getTypeE v)))))"
| "eval st (OrExpr left right p) =
     bindR (getDataType st left) (\<lambda>leftType.
       if leftType \<noteq> TYPE_BOOL then throwAt TypeError p
       else bindR (getDataType st right) (\<lambda>rightType.
         if rightType \<noteq> TYPE_BOOL then throwAt TypeError p
         else bindR (eval st left) (\<lambda>leftValue.
              bindR (getBoolValue leftValue) (\<lambda>l.
                if l then Inr (BoolElement True)
                else bindR (eval st right) (\<lambda>rightValue.
                     bindR (getBoolValue rightValue) (\<lambda>r. Inr (BoolElement r)))))))"
| "eval st (AndExpr left right p) =
     bindR (getDataType st left) (\<lambda>leftType.
       if leftType \<noteq> TYPE_BOOL then throwAt TypeError p
       else bindR (getDataType st right) (\<lambda>rightType.
         if rightType \<noteq> TYPE_BOOL then throwAt TypeError p
         else bindR (eval st left) (\<lambda>leftValue.
              bindR (getBoolValue leftValue) (\<lambda>l.
                if \<not> l then Inr (BoolElement False)
                else bindR (eval st right) (\<lambda>rightValue.
                     bindR (getBoolValue rightValue) (\<lambda>r. Inr (BoolElement r)))))))"
| "eval st (EqualExpr left op right p) =
     bindR (getDataType st left) (\<lambda>leftType.
     bindR (getDataType st right) (\<lambda>rightType.
       if leftType = TYPE_UNDEFINED \<or> rightType = TYPE_UNDEFINED \<or> leftType \<noteq> rightType
       then throwAt TypeError p
       else bindR (eval st left) (\<lambda>leftValue.
            bindR (eval st right) (\<lambda>rightValue.
              case leftValue of
                BoolElement l \<Rightarrow>
                  bindR (getBoolValue rightValue) (\<lambda>r.
                    Inr (BoolElement (case op of EQ_EXPR \<Rightarrow> l = r | NEQ_EXPR \<Rightarrow> l \<noteq> r)))
              | IntElement l \<Rightarrow>
                  bindR (getIntValue rightValue) (\<lambda>r.
                    Inr (BoolElement (case op of EQ_EXPR \<Rightarrow> l = r | NEQ_EXPR \<Rightarrow> l \<noteq> r)))))))"
| "eval st (ComparativeRelation left op right p) =
     bindR (getDataType st left) (\<lambda>leftType.
     bindR (getDataType st right) (\<lambda>rightType.
       if leftType \<noteq> TYPE_INT \<or> rightType \<noteq> TYPE_INT then throwAt TypeError p
       else bindR (eval st left) (\<lambda>leftValue.
            bindR (eval st right) (\<lambda>rightValue.
            bindR (getIntValue leftValue) (\<lambda>l.
            bindR (getIntValue rightValue) (\<lambda>r.
              Inr (BoolElement (case op of LT_REL \<Rightarrow> l < r | LE_REL \<Rightarrow> l \<le> r
                                         | GT_REL \<Rightarrow> l > r | GE_REL \<Rightarrow> l \<ge> r))))))))"
| "eval st (AritExpr left op right p) =
     bindR (getDataType st left) (\<lambda>leftType.
     bindR (getDataType st right) (\<lambda>rightType.
       if leftType \<noteq> TYPE_INT \<or> rightType \<noteq> TYPE_INT then throwAt TypeError p
       else bindR (eval st left) (\<lambda>leftValue.
            bindR (eval st right) (\<lambda>rightValue.
            bindR (getIntValue leftValue) (\<lambda>l.
            bindR (getIntValue rightValue) (\<lambda>r.
              case op of ADD_EXPR \<Rightarrow> newInt (l + r) | SUB_EXPR \<Rightarrow> newInt (l - r)))))))"
| "eval st (MulDivTerm left op right p) =
     bindR (getDataType st left) (\<lambda>leftType.
     bindR (getDataType st right) (\<lambda>rightType.
       if leftType \<noteq> TYPE_INT \<or> rightType \<noteq> TYPE_INT then throwAt TypeError p
       else bindR (eval st left) (\<lambda>leftValue.
            bindR (eval st right) (\<lambda>rightValue.
              case op of
                MUL_TERM \<Rightarrow>
                  bindR (getIntValue leftValue) (\<lambda>l.
                  bindR (getIntValue rightValue) (\<lambda>r. newInt (l * r)))
              | DIV_TERM \<Rightarrow>
                  bindR (getIntValue rightValue) (\<lambda>r.
                    if r = 0 then throwAt ZeroDivisionError p
                    else bindR (getIntValue leftValue) (\<lambda>l. newInt (truncDiv l r)))))))"
| "eval st (NotUnary unary p) =
     bindR (getDataType st unary) (\<lambda>unaryType.
       if unaryType \<noteq> TYPE_BOOL then throwAt TypeError p
       else bindR (eval st unary) (\<lambda>unaryValue.
            bindR (getBoolValue unaryValue) (\<lambda>b. Inr (BoolElement (\<not> b)))))"
| "eval st (MinusUnary unary p) =
     bindR (getDataType st unary) (\<lambda>unaryType.
       if unaryType \<noteq> TYPE_INT then throwAt TypeError p
       else bindR (eval st unary) (\<lambda>unaryValue.
            bindR (getIntValue unaryValue) (\<lambda>i. newInt (- i))))"
| "eval st (ExpressionFactor e p) = eval st e"
| "eval st (NumberFactor n p) = Inr (IntElement n)"
| "eval st (BoolFactor b p) = Inr (BoolElement b)"
| "eval st (IdLocation ident p) =
     (if \<not> isVariableDefined st ident then throwAt SemanticError p
      else Visitor_getVariableValue st ident p)"
| "eval st (ListElementLocation ident index p) =
     (if \<not> isListDefined st ident then throwAt SemanticError p
      else bindR (eval st index) (\<lambda>indexValue.
             if getTypeE indexValue \<noteq> TYPE_INT then throwAt TypeError p
             else bindR (getIntValue indexValue) (\<lambda>i.
                    if i < 0 then throwAt SemanticError p
                    else bindR (Visitor_getListSize st ident p) (\<lambda>n.
                           if i \<ge> n then throwAt SemanticError p
                           else Visitor_getListElement st ident i p))))"

subsection \<open>Statements\<close>

text \<open>
  A visit either returns or fails, and it leaves the visitor in some state either way:
  what has been stored and printed before an exception stays so. \<open>None\<close> is not an outcome
  of the program: the recursion budget of the model (its first argument) ran out before
  the visit ended.
\<close>

type_synonym outcome = "unit result \<times> Visitor"
type_synonym exec = "outcome option"

definition bindV :: "exec \<Rightarrow> (Visitor \<Rightarrow> exec) \<Rightarrow> exec" where
  "bindV m f =
     (case m of
        None \<Rightarrow> None
      | Some (Inl e, v) \<Rightarrow> Some (Inl e, v)
      | Some (Inr _, v) \<Rightarrow> f v)"

text \<open>A call on the symbol table that throws before it changes anything.\<close>

definition withTable :: "SymbolTable result \<Rightarrow> Visitor \<Rightarrow> outcome" where
  "withTable r v = (case r of Inl e \<Rightarrow> (Inl e, v) | Inr st \<Rightarrow> (Inr (), v\<lparr>symbolTable := st\<rparr>))"

definition Visitor_addVariable :: "string \<Rightarrow> EvaluatedElement \<Rightarrow> SymbolTable \<Rightarrow> SymbolTable result" where
  "Visitor_addVariable ident element st =
     (case element of
        IntElement i \<Rightarrow> addVariableInt ident i st
      | BoolElement b \<Rightarrow> addVariableBool ident b st)"

definition Visitor_updateVariable :: "string \<Rightarrow> EvaluatedElement \<Rightarrow> SymbolTable \<Rightarrow> SymbolTable result" where
  "Visitor_updateVariable ident element st =
     (case element of
        IntElement i \<Rightarrow> updateVariableInt ident i st
      | BoolElement b \<Rightarrow> updateVariableBool ident b st)"

definition isAlreadyDefined :: "SymbolTable \<Rightarrow> string \<Rightarrow> bool" where
  "isAlreadyDefined st ident = (isVariableDefined st ident \<or> isListDefined st ident)"

definition visitAssignmentStatement :: "Expression \<Rightarrow> Expression \<Rightarrow> pos \<Rightarrow> Visitor \<Rightarrow> outcome" where
  "visitAssignmentStatement loc expr p v =
     (let st = symbolTable v in
      case loc of
        IdLocation ident lp \<Rightarrow>
          (case eval st expr of
             Inl e \<Rightarrow> (Inl e, v)
           | Inr val \<Rightarrow>
               if isVariableDefined st ident
               then withTable (Visitor_updateVariable ident val st) v
               else if isListDefined st ident \<and> \<not> isVariableDefined st ident
               then (case clear ident st of
                       Inl e \<Rightarrow> (Inl e, v)
                     | Inr st1 \<Rightarrow>
                         withTable (Visitor_addVariable ident val st1) (v\<lparr>symbolTable := st1\<rparr>))
               else if \<not> isAlreadyDefined st ident
               then withTable (Visitor_addVariable ident val st) v
               else (throwAt SemanticError lp, v))
      | ListElementLocation listId indexExpr lp \<Rightarrow>
          (case eval st expr of
             Inl e \<Rightarrow> (Inl e, v)
           | Inr val \<Rightarrow>
               if \<not> isListDefined st listId then (throwAt SemanticError lp, v)
               else (case eval st indexExpr of
                       Inl e \<Rightarrow> (Inl e, v)
                     | Inr indexValue \<Rightarrow>
                         if getTypeE indexValue \<noteq> TYPE_INT
                         then (throwAt SemanticError (posOf indexExpr), v)
                         else withTable
                                (bindR (getIntValue indexValue) (\<lambda>index.
                                   updateListElement listId index val st)) v))
      | _ \<Rightarrow> (throwAt InternalError (posOf loc), v))"

definition visitListDeclarationStatement :: "string \<Rightarrow> pos \<Rightarrow> Visitor \<Rightarrow> outcome" where
  "visitListDeclarationStatement ident p v =
     (if isAlreadyDefined (symbolTable v) ident then (throwAt SemanticError p, v)
      else (Inr (), v\<lparr>symbolTable := addList ident (symbolTable v)\<rparr>))"

definition visitListAppendStatement :: "string \<Rightarrow> Expression \<Rightarrow> pos \<Rightarrow> Visitor \<Rightarrow> outcome" where
  "visitListAppendStatement ident expr p v =
     (if \<not> isListDefined (symbolTable v) ident then (throwAt SemanticError p, v)
      else (case eval (symbolTable v) expr of
              Inl e \<Rightarrow> (Inl e, v)
            | Inr val \<Rightarrow> withTable (appendToList ident val (symbolTable v)) v))"

text \<open>\<^verbatim>\<open>std::cout << int\<close>: the decimal digits, with a minus sign below zero.\<close>

fun digitsOf :: "nat \<Rightarrow> string" where
  "digitsOf n =
     (if n < 10 then [char_of (48 + n)] else digitsOf (n div 10) @ [char_of (48 + n mod 10)])"

declare digitsOf.simps [simp del]

definition showInt :: "int \<Rightarrow> string" where
  "showInt i = (if i < 0 then CHR ''-'' # digitsOf (nat (- i)) else digitsOf (nat i))"

definition visitPrintStatement :: "Expression \<Rightarrow> pos \<Rightarrow> Visitor \<Rightarrow> outcome" where
  "visitPrintStatement expr p v =
     (case eval (symbolTable v) expr of
        Inl e \<Rightarrow> (Inl e, v)
      | Inr (IntElement i) \<Rightarrow> (Inr (), v\<lparr>cout := cout v @ [showInt i]\<rparr>)
      | Inr (BoolElement b) \<Rightarrow> (Inr (), v\<lparr>cout := cout v @ [if b then ''True'' else ''False'']\<rparr>))"

text \<open>\<^verbatim>\<open>stack.back() = b\<close>, undefined on an empty vector.\<close>

definition setBack :: "bool \<Rightarrow> bool list \<Rightarrow> bool list result" where
  "setBack b stack = (if stack = [] then Inl Unchecked else Inr (butlast stack @ [b]))"

definition popBack :: "bool list \<Rightarrow> bool list result" where
  "popBack stack = (if stack = [] then Inl Unchecked else Inr (butlast stack))"

definition setLoopBack :: "bool \<Rightarrow> Visitor \<Rightarrow> outcome" where
  "setLoopBack b v =
     (case setBack b (loopStack v) of
        Inl e \<Rightarrow> (Inl e, v)
      | Inr stack \<Rightarrow> (Inr (), v\<lparr>loopStack := stack\<rparr>))"

definition setConditionMetBack :: "bool \<Rightarrow> Visitor \<Rightarrow> outcome" where
  "setConditionMetBack b v =
     (case setBack b (conditionMetStack v) of
        Inl e \<Rightarrow> (Inl e, v)
      | Inr stack \<Rightarrow> (Inr (), v\<lparr>conditionMetStack := stack\<rparr>))"

definition popLoop :: "Visitor \<Rightarrow> outcome" where
  "popLoop v =
     (case popBack (loopStack v) of
        Inl e \<Rightarrow> (Inl e, v)
      | Inr stack \<Rightarrow> (Inr (), v\<lparr>loopStack := stack\<rparr>))"

definition popConditionMet :: "Visitor \<Rightarrow> outcome" where
  "popConditionMet v =
     (case popBack (conditionMetStack v) of
        Inl e \<Rightarrow> (Inl e, v)
      | Inr stack \<Rightarrow> (Inr (), v\<lparr>conditionMetStack := stack\<rparr>))"

definition visitBreakStatement :: "pos \<Rightarrow> Visitor \<Rightarrow> outcome" where
  "visitBreakStatement p v =
     (if loopStack v = [] then (throwAt SemanticError p, v) else setLoopBack False v)"

definition visitContinueStatement :: "pos \<Rightarrow> Visitor \<Rightarrow> outcome" where
  "visitContinueStatement p v =
     (if loopStack v = [] then (throwAt SemanticError p, v) else (Inr (), v))"

text \<open>
  The visits that recurse. The first argument is the recursion budget; every call passes
  one less, which is the whole termination argument. \<open>visitStatements\<close> is the loop \<^verbatim>\<open>for (auto stmt : ...) visitStatement(stmt)\<close>
  of \<^verbatim>\<open>visitProgram\<close> and \<^verbatim>\<open>visitSimpleBlock\<close>; \<open>visitIfBlocks\<close> and
  \<open>visitElifElseBlocks\<close> are the two loops over the blocks in \<^verbatim>\<open>visitIfStatement\<close>;
  \<open>whileLoop\<close> is the \<^verbatim>\<open>while (true)\<close> of \<^verbatim>\<open>visitWhileStatement\<close> and \<open>whileBody\<close> the
  loop over the statements of its block. In that loop the C++ \<^verbatim>\<open>break\<close> leaves the loop
  over the statements, and the C++ \<^verbatim>\<open>continue\<close> goes on with the next statement.
\<close>

function (sequential) visitStatement :: "nat \<Rightarrow> Statement \<Rightarrow> Visitor \<Rightarrow> exec"
and visitStatements :: "nat \<Rightarrow> Statement list \<Rightarrow> Visitor \<Rightarrow> exec"
and visitSimpleBlock :: "nat \<Rightarrow> Block \<Rightarrow> Visitor \<Rightarrow> exec"
and visitElifBlock :: "nat \<Rightarrow> Expression \<Rightarrow> Block \<Rightarrow> pos \<Rightarrow> Visitor \<Rightarrow> exec"
and visitElseBlock :: "nat \<Rightarrow> Block \<Rightarrow> pos \<Rightarrow> Visitor \<Rightarrow> exec"
and visitIfBlocks :: "nat \<Rightarrow> Block list \<Rightarrow> Visitor \<Rightarrow> exec"
and visitElifElseBlocks :: "nat \<Rightarrow> Block list \<Rightarrow> Visitor \<Rightarrow> exec"
and visitIfStatement :: "nat \<Rightarrow> Expression \<Rightarrow> Block list \<Rightarrow> pos \<Rightarrow> Visitor \<Rightarrow> exec"
and visitWhileStatement :: "nat \<Rightarrow> Expression \<Rightarrow> Block list \<Rightarrow> pos \<Rightarrow> Visitor \<Rightarrow> exec"
and whileLoop :: "nat \<Rightarrow> Expression \<Rightarrow> Block list \<Rightarrow> pos \<Rightarrow> Visitor \<Rightarrow> exec"
and whileBody :: "nat \<Rightarrow> Statement list \<Rightarrow> Visitor \<Rightarrow> exec"
where
  "visitStatement 0 stmt v = None"
| "visitStatement (Suc n) stmt v =
     (case stmt of
        AssignmentStatement loc expr p \<Rightarrow> Some (visitAssignmentStatement loc expr p v)
      | ListDeclarationStatement ident p \<Rightarrow> Some (visitListDeclarationStatement ident p v)
      | ListAppendStatement ident expr p \<Rightarrow> Some (visitListAppendStatement ident expr p v)
      | PrintStatement expr p \<Rightarrow> Some (visitPrintStatement expr p v)
      | CompoundStatement IF_STMT expr blocks p \<Rightarrow> visitIfStatement n expr blocks p v
      | CompoundStatement WHILE_STMT expr blocks p \<Rightarrow> visitWhileStatement n expr blocks p v
      | BreakStatement p \<Rightarrow> Some (visitBreakStatement p v)
      | ContinueStatement p \<Rightarrow> Some (visitContinueStatement p v))"
| "visitStatements 0 stmts v = None"
| "visitStatements (Suc n) [] v = Some (Inr (), v)"
| "visitStatements (Suc n) (stmt # stmts) v =
     bindV (visitStatement n stmt v) (visitStatements n stmts)"
| "visitSimpleBlock 0 block v = None"
| "visitSimpleBlock (Suc n) block v =
     (case block of
        SimpleBlock stmts p \<Rightarrow> visitStatements n stmts v
      | _ \<Rightarrow> Some (Inl Unchecked, v))"
| "visitElifBlock 0 condition block p v = None"
| "visitElifBlock (Suc n) condition block p v =
     (if conditionMetStack v \<noteq> [] \<and> last (conditionMetStack v) then Some (Inr (), v)
      else if conditionMetStack v = [] then Some (throwAt InternalError p, v)
      else (case bindR (eval (symbolTable v) condition) getBoolValue of
              Inl e \<Rightarrow> Some (Inl e, v)
            | Inr b \<Rightarrow>
                if b
                then bindV (Some (setConditionMetBack True v)) (\<lambda>v1.
                     bindV (visitSimpleBlock n block v1) (\<lambda>v2.
                       Some (setConditionMetBack True v2)))
                else Some (Inr (), v)))"
| "visitElseBlock 0 block p v = None"
| "visitElseBlock (Suc n) block p v =
     (if conditionMetStack v \<noteq> [] \<and> last (conditionMetStack v) then Some (Inr (), v)
      else if conditionMetStack v = [] then Some (throwAt InternalError p, v)
      else bindV (visitSimpleBlock n block v) (\<lambda>v1. Some (setConditionMetBack True v1)))"
| "visitIfBlocks 0 blocks v = None"
| "visitIfBlocks (Suc n) [] v = Some (Inr (), v)"
| "visitIfBlocks (Suc n) (block # blocks) v =
     bindV (case block of
              SimpleBlock stmts p \<Rightarrow> visitSimpleBlock n block v
            | ElifBlock condition body p \<Rightarrow> visitElifBlock n condition body p v
            | ElseBlock body p \<Rightarrow> visitElseBlock n body p v)
       (visitIfBlocks n blocks)"
| "visitElifElseBlocks 0 blocks v = None"
| "visitElifElseBlocks (Suc n) [] v = Some (Inr (), v)"
| "visitElifElseBlocks (Suc n) (block # blocks) v =
     bindV (case block of
              SimpleBlock stmts p \<Rightarrow> Some (Inr (), v)
            | ElifBlock condition body p \<Rightarrow> visitElifBlock n condition body p v
            | ElseBlock body p \<Rightarrow> visitElseBlock n body p v)
       (visitElifElseBlocks n blocks)"
| "visitIfStatement 0 condition blocks p v = None"
| "visitIfStatement (Suc n) condition blocks p v =
     (case eval (symbolTable v) condition of
        Inl e \<Rightarrow> Some (Inl e, v)
      | Inr condValue \<Rightarrow>
          (let v1 = v\<lparr>conditionMetStack := conditionMetStack v @ [False]\<rparr> in
           case condValue of
             IntElement i \<Rightarrow> Some (throwAt SemanticError (posOf condition), v1)
           | BoolElement b \<Rightarrow>
               bindV (if b
                      then bindV (Some (setConditionMetBack True v1)) (visitIfBlocks n blocks)
                      else Some (Inr (), v1)) (\<lambda>v2.
               bindV (visitElifElseBlocks n blocks v2) (\<lambda>v3.
                 Some (popConditionMet v3)))))"
| "visitWhileStatement 0 condition blocks p v = None"
| "visitWhileStatement (Suc n) condition blocks p v =
     bindV (whileLoop n condition blocks p (v\<lparr>loopStack := loopStack v @ [True]\<rparr>))
       (\<lambda>v1. Some (popLoop v1))"
| "whileLoop 0 condition blocks p v = None"
| "whileLoop (Suc n) condition blocks p v =
     (case eval (symbolTable v) condition of
        Inl e \<Rightarrow> Some (Inl e, v)
      | Inr (IntElement i) \<Rightarrow> Some (throwAt SemanticError (posOf condition), v)
      | Inr (BoolElement b) \<Rightarrow>
          if \<not> b then Some (Inr (), v)
          else if loopStack v = [] then Some (Inl Unchecked, v)
          else if \<not> last (loopStack v) then Some (Inr (), v)
          else if length blocks \<noteq> 1 then Some (throwAt SemanticError p, v)
          else (case hd blocks of
                  SimpleBlock stmts bp \<Rightarrow>
                    bindV (whileBody n stmts v) (whileLoop n condition blocks p)
                | _ \<Rightarrow> Some (Inl Unchecked, v)))"
| "whileBody 0 stmts v = None"
| "whileBody (Suc n) [] v = Some (Inr (), v)"
| "whileBody (Suc n) (stmt # stmts) v =
     (case stmt of
        BreakStatement p \<Rightarrow> Some (setLoopBack False v)
      | ContinueStatement p \<Rightarrow> whileBody n stmts v
      | _ \<Rightarrow> bindV (visitStatement n stmt v) (whileBody n stmts))"
  by pat_completeness auto
termination
  by (relation "measure (case_sum
         (case_sum (case_sum fst fst) (case_sum fst (case_sum fst fst)))
         (case_sum (case_sum fst (case_sum fst fst)) (case_sum fst (case_sum fst fst))))")
     simp_all

text \<open>\<^verbatim>\<open>Visitor::visitProgram\<close> on a fresh visitor.\<close>

definition visitProgram :: "nat \<Rightarrow> Program \<Rightarrow> exec" where
  "visitProgram n program = (case program of Program stmts \<Rightarrow> visitStatements n stmts newVisitor)"

section \<open>Properties of the lexer\<close>

subsection \<open>The guards on closing brackets\<close>

lemma not_letter_brackets [simp]:
  "\<not> isLetter CHR '']''" "\<not> isLetter CHR '')''"
  "\<not> inRange CHR ''1'' CHR ''9'' CHR '']''" "\<not> inRange CHR ''1'' CHR ''9'' CHR '')''"
  by (simp_all add: isLetter_def inRange_def)

text \<open>
  Claim C9. When \<^verbatim>\<open>]\<close> is read while no bracket or parenthesis is open, the guard
  \<^verbatim>\<open>(parStack_.back() == 1) || (parStack_.empty())\<close> reads \<^verbatim>\<open>back()\<close> of the empty
  stack first: the round ends in the unchecked access, not in the lexical error. The
  guard on \<^verbatim>\<open>)\<close> tests \<^verbatim>\<open>empty()\<close> first and throws \<^verbatim>\<open>LexicalError\<close> at the
  current position.
\<close>

theorem rbracket_guard_reads_empty_stack:
  assumes "parStack st = []"
  shows "lexeme CHR '']'' st = Inl Unchecked \<and>
         lexeme CHR '')'' st = Inl (Throw (LexicalError (line st) (column st)))"
  using assms by (simp add: lexeme_def emit_def push_back_def)

theorem rbracket_guard_reads_empty_stack_witness:
  "parStack (newLexer []) = [] \<and>
   lexeme CHR '']'' (newLexer []) = Inl Unchecked \<and>
   lexeme CHR '')'' (newLexer []) = Inl (Throw (LexicalError 1 0))"
  using rbracket_guard_reads_empty_stack [of "newLexer []"] by (simp add: newLexer_def)

text \<open>The same on the one-character inputs, through the whole of \<^verbatim>\<open>tokenizeInputFile\<close>.\<close>

lemma tokenize_lone_rbracket: "tokenizeInputFile '']'' = Inl Unchecked"
  by code_simp

lemma tokenize_lone_rpar: "tokenizeInputFile '')'' = Inl (Throw (LexicalError 1 1))"
  by code_simp

subsection \<open>Invariants of the loops\<close>

lemma tokenizeLoop_invariant:
  assumes step: "\<And>st ch st1 st2.
            I st \<Longrightarrow> getChar st = Some (ch, st1) \<Longrightarrow> iteration ch st1 = Inr st2 \<Longrightarrow> I st2"
    and "I st" and "tokenizeLoop st = Inr st'"
  shows "I st'"
  using assms(2,3)
proof (induction st rule: tokenizeLoop.induct)
  case (1 st)
  show ?case
  proof (cases "getChar st")
    case None
    with "1.prems" show ?thesis by (simp add: tokenizeLoop.simps)
  next
    case (Some a)
    obtain ch st1 where a: "a = (ch, st1)" by (cases a)
    show ?thesis
    proof (cases "iteration ch st1")
      case (Inl e)
      with Some a "1.prems" show ?thesis by (simp add: tokenizeLoop.simps)
    next
      case (Inr st2)
      with Some a "1.prems" have run: "tokenizeLoop st2 = Inr st'"
        by (simp add: tokenizeLoop.simps)
      from step [OF "1.prems"(1)] Some a Inr have "I st2" by simp
      with "1.IH" [OF Some a [symmetric] Inr] run show ?thesis by simp
    qed
  qed
qed

definition isIndent :: "Token \<Rightarrow> bool" where
  "isIndent t = (case t of IndentationToken b _ _ \<Rightarrow> b | _ \<Rightarrow> False)"

definition isDedent :: "Token \<Rightarrow> bool" where
  "isDedent t = (case t of IndentationToken b _ _ \<Rightarrow> \<not> b | _ \<Rightarrow> False)"

definition countIndent :: "Token list \<Rightarrow> nat" where
  "countIndent ts = length (filter isIndent ts)"

definition countDedent :: "Token list \<Rightarrow> nat" where
  "countDedent ts = length (filter isDedent ts)"

text \<open>Pushes on the indentation stack and pops from it are matched by the tokens pushed.\<close>

definition balanced :: "Frame \<Rightarrow> bool" where
  "balanced st =
     (indentStack st \<noteq> [] \<and>
      countIndent (res st) + 1 = countDedent (res st) + length (indentStack st))"

lemma balanced_newLexer: "balanced (newLexer src)"
  by (simp add: balanced_def newLexer_def countIndent_def countDedent_def)

lemma count_push_back [simp]:
  "countIndent (res (push_back t st)) = countIndent (res st) + (if isIndent t then 1 else 0)"
  "countDedent (res (push_back t st)) = countDedent (res st) + (if isDedent t then 1 else 0)"
  "indentStack (push_back t st) = indentStack st"
  by (simp_all add: push_back_def countIndent_def countDedent_def)

lemma isIndent_simps [simp]:
  "isIndent (IndentationToken b l c) = b" "isDedent (IndentationToken b l c) = (\<not> b)"
  by (simp_all add: isIndent_def isDedent_def)

lemma dedentLoop_balanced: "balanced st \<Longrightarrow> dedentLoop st = Inr st' \<Longrightarrow> balanced st'"
proof (induction st rule: dedentLoop.induct)
  case (1 st)
  show ?case
  proof (cases "n_t st < last (indentStack st)")
    case False
    with "1.prems" show ?thesis
      by (subst (asm) dedentLoop.simps) (simp add: balanced_def split: list.splits)
  next
    case True
    let ?st1 = "push_back (IndentationToken False (line st) (column st))
                  (st\<lparr>indentStack := butlast (indentStack st)\<rparr>)"
    from "1.prems"(1) obtain x xs where stk: "indentStack st = x # xs"
      by (cases "indentStack st") (simp_all add: balanced_def)
    from True stk "1.prems"(2) have run: "dedentLoop ?st1 = Inr st'"
      by (subst (asm) dedentLoop.simps) simp
    then have ne: "indentStack ?st1 \<noteq> []"
      by (subst (asm) dedentLoop.simps) (auto split: list.splits)
    from "1.prems"(1) stk ne have "balanced ?st1"
      by (simp add: balanced_def)
    with "1.IH" [OF stk True] run show ?thesis by simp
  qed
qed


lemma indentation_balanced:
  assumes "balanced st" and "indentation ch st = Inr fl"
  shows "balanced (case fl of Continue s \<Rightarrow> s | Next s \<Rightarrow> s)"
proof -
  have upd: "\<And>s f. balanced (s\<lparr>n_t := f\<rparr>) = balanced s" "\<And>s f. balanced (s\<lparr>indent := f\<rparr>) = balanced s"
    by (simp_all add: balanced_def)
  from assms(1) obtain x xs where stk: "indentStack st = x # xs"
    by (cases "indentStack st") (simp_all add: balanced_def)
  let ?st1 = "st\<lparr>indent := False\<rparr>"
  have b1: "balanced ?st1" using assms(1) by (simp add: upd)
  show ?thesis
  proof (cases "dedentLoop ?st1")
    case (Inl e)
    with assms stk show ?thesis
      by (auto simp: indentation_def Let_def bindR_def upd balanced_def split: if_splits)
  next
    case (Inr st2)
    from dedentLoop_balanced [OF b1 Inr] have b2: "balanced st2" .
    with assms stk Inr show ?thesis
      by (auto simp: indentation_def Let_def bindR_def upd split: if_splits list.splits)
         (simp_all add: balanced_def)
  qed
qed

definition keeps :: "Frame \<Rightarrow> Frame result \<Rightarrow> bool" where
  "keeps st r =
     (case r of
        Inl _ \<Rightarrow> True
      | Inr st' \<Rightarrow>
          indentStack st' = indentStack st \<and> countIndent (res st') = countIndent (res st) \<and>
          countDedent (res st') = countDedent (res st))"

lemma keeps_simps [simp]:
  "keeps st (Inl e)"
  "keeps st (Inr st') =
     (indentStack st' = indentStack st \<and> countIndent (res st') = countIndent (res st) \<and>
      countDedent (res st') = countDedent (res st))"
  by (simp_all add: keeps_def)

lemma newToken_not_indentation:
  "newNumberToken s l c = Inr t \<Longrightarrow> \<not> isIndent t \<and> \<not> isDedent t"
  "newBoolOpToken s l c = Inr t \<Longrightarrow> \<not> isIndent t \<and> \<not> isDedent t"
  "newReservedKeywordToken s l c = Inr t \<Longrightarrow> \<not> isIndent t \<and> \<not> isDedent t"
  by (auto simp: newNumberToken_def newBoolOpToken_def newReservedKeywordToken_def
                 isIndent_def isDedent_def split: if_splits)

lemma keeps_bindR_push:
  assumes "\<And>t. r = Inr t \<Longrightarrow> \<not> isIndent t \<and> \<not> isDedent t"
    and "indentStack st1 = indentStack st" and "res st1 = res st"
  shows "keeps st (bindR r (\<lambda>t. Inr (push_back t st1)))"
  using assms by (cases r) (simp_all add: bindR_def)

lemma readWhile_keeps:
  "readWhile p w st = (w', st') \<Longrightarrow> indentStack st' = indentStack st \<and> res st' = res st"
proof (induction p w st rule: readWhile.induct)
  case (1 p word lx)
  then show ?case
    by (subst (asm) (2) readWhile.simps)
       (auto simp: getChar_def split: if_splits option.splits list.splits)
qed

lemma consume_keeps [simp]:
  "indentStack (consume st) = indentStack st" "res (consume st) = res st"
  "parStack (consume st) = parStack st"
  by (auto simp: consume_def getChar_def split: option.splits list.splits)

lemma emit_keeps [simp]:
  "indentStack (emit mk st) = indentStack st"
  "countIndent (res (emit mk st)) = countIndent (res st) + (if isIndent (mk (line st) (column st)) then 1 else 0)"
  "countDedent (res (emit mk st)) = countDedent (res st) + (if isDedent (mk (line st) (column st)) then 1 else 0)"
  by (simp_all add: emit_def)

lemma not_indentation_simps [simp]:
  "\<not> isIndent (NumberToken v l c)" "\<not> isDedent (NumberToken v l c)"
  "\<not> isIndent (BoolToken b l c)" "\<not> isDedent (BoolToken b l c)"
  "\<not> isIndent (IdToken s l c)" "\<not> isDedent (IdToken s l c)"
  "\<not> isIndent (NewLineToken l c)" "\<not> isDedent (NewLineToken l c)"
  "\<not> isIndent (EndOfFileToken l c)" "\<not> isDedent (EndOfFileToken l c)"
  "\<not> isIndent (ArithmeticToken a l c)" "\<not> isDedent (ArithmeticToken a l c)"
  "\<not> isIndent (RelationalToken r l c)" "\<not> isDedent (RelationalToken r l c)"
  "\<not> isIndent (BoolOpToken bo l c)" "\<not> isDedent (BoolOpToken bo l c)"
  "\<not> isIndent (ReservedKeywordToken k l c)" "\<not> isDedent (ReservedKeywordToken k l c)"
  "\<not> isIndent (AssignmentToken l c)" "\<not> isDedent (AssignmentToken l c)"
  "\<not> isIndent (PunctuationToken pu l c)" "\<not> isDedent (PunctuationToken pu l c)"
  by (simp_all add: isIndent_def isDedent_def)

lemma word_branch_keeps: "keeps st (word_branch ch st)"
proof -
  obtain word st1 where rw: "readWhile (\<lambda>c. isLetter c \<or> isDigit c) [ch] st = (word, st1)"
    by (cases "readWhile (\<lambda>c. isLetter c \<or> isDigit c) [ch] st")
  from readWhile_keeps [OF rw] show ?thesis
    by (simp add: word_branch_def rw keeps_bindR_push newToken_not_indentation)
qed

lemma number_branch_keeps: "keeps st (number_branch ch st)"
proof -
  obtain numStr st1 where rw: "readWhile isDigit [ch] st = (numStr, st1)"
    by (cases "readWhile isDigit [ch] st")
  from readWhile_keeps [OF rw] show ?thesis
    by (simp add: number_branch_def rw keeps_bindR_push newToken_not_indentation)
qed

lemma lexeme_keeps: "keeps st (lexeme ch st)"
  unfolding lexeme_def
  by (simp add: Let_def word_branch_keeps number_branch_keeps keeps_bindR_push
        newToken_not_indentation split: list.split)

lemma iteration_balanced:
  assumes "balanced st" and "iteration ch st = Inr st'"
  shows "balanced st'"
proof (cases "indentation ch st")
  case (Inl e)
  with assms show ?thesis by (simp add: iteration_def bindR_def)
next
  case (Inr fl)
  show ?thesis
  proof (cases fl)
    case (Continue s)
    with Inr assms indentation_balanced [OF assms(1) Inr] show ?thesis
      by (simp add: iteration_def bindR_def)
  next
    case (Next s)
    with Inr assms have lx: "lexeme ch s = Inr st'" by (simp add: iteration_def bindR_def)
    from indentation_balanced [OF assms(1) Inr] Next have "balanced s" by simp
    with lexeme_keeps [of s ch] lx show ?thesis by (simp add: balanced_def)
  qed
qed

lemma drainIndentStack_balanced:
  "balanced st \<Longrightarrow> balanced (drainIndentStack st) \<and> length (indentStack (drainIndentStack st)) = 1"
proof (induction st rule: drainIndentStack.induct)
  case (1 st)
  show ?case
  proof (cases "length (indentStack st) > 1")
    case False
    with "1.prems" show ?thesis
      by (subst drainIndentStack.simps, subst drainIndentStack.simps)
         (cases "indentStack st", simp_all add: balanced_def)
  next
    case True
    let ?st1 = "push_back (IndentationToken False (line st) (column st))
                  (st\<lparr>indentStack := butlast (indentStack st)\<rparr>)"
    from True "1.prems" have "balanced ?st1"
      by (cases "indentStack st") (auto simp: balanced_def)
    from "1.IH" [OF True this] True show ?thesis
      by (subst drainIndentStack.simps, subst drainIndentStack.simps) simp
  qed
qed

text \<open>
  Claim C8. Whenever the lexer returns a token vector, it holds as many indent tokens as
  dedent tokens: one indent per push on the indentation stack, one dedent per pop, and the
  stack is drained to its base entry before the end-of-file token.
\<close>

theorem indent_dedent_balance:
  assumes "tokenizeInputFile src = Inr toks"
  shows "countIndent toks = countDedent toks"
proof -
  from assms obtain st where run: "tokenizeLoop (newLexer src) = Inr st"
    and toks: "toks = res (emit EndOfFileToken (drainIndentStack st))"
    by (auto simp: tokenizeInputFile_def bindR_def split: sum.splits if_splits)
  have "balanced st"
  proof (rule tokenizeLoop_invariant [where I = balanced, OF _ balanced_newLexer run])
    fix s :: Frame and ch s1 s2
    assume "balanced s" and "getChar s = Some (ch, s1)" and it: "iteration ch s1 = Inr s2"
    then have "balanced s1"
      by (auto simp: getChar_def balanced_def split: list.splits if_splits)
    then show "balanced s2" using it by (rule iteration_balanced)
  qed
  from drainIndentStack_balanced [OF this] toks show ?thesis
    by (simp add: balanced_def)
qed

theorem indent_dedent_balance_witness:
  "tokenizeInputFile ''if x:\<newline>  y = 1\<newline>'' =
     Inr [ReservedKeywordToken IF 1 2, IdToken ''x'' 1 4, PunctuationToken COL 1 5,
          NewLineToken 2 0, IndentationToken True 2 3, IdToken ''y'' 2 3,
          AssignmentToken 2 5, NumberToken 1 2 7, NewLineToken 3 0,
          IndentationToken False 3 0, EndOfFileToken 3 0] \<and>
   countIndent [ReservedKeywordToken IF 1 2, IdToken ''x'' 1 4, PunctuationToken COL 1 5,
          NewLineToken 2 0, IndentationToken True 2 3, IdToken ''y'' 2 3,
          AssignmentToken 2 5, NumberToken 1 2 7, NewLineToken 3 0,
          IndentationToken False 3 0, EndOfFileToken 3 0] = 1 \<and>
   countDedent [ReservedKeywordToken IF 1 2, IdToken ''x'' 1 4, PunctuationToken COL 1 5,
          NewLineToken 2 0, IndentationToken True 2 3, IdToken ''y'' 2 3,
          AssignmentToken 2 5, NumberToken 1 2 7, NewLineToken 3 0,
          IndentationToken False 3 0, EndOfFileToken 3 0] = 1"
proof -
  have run: "tokenizeInputFile ''if x:\<newline>  y = 1\<newline>'' =
     Inr [ReservedKeywordToken IF 1 2, IdToken ''x'' 1 4, PunctuationToken COL 1 5,
          NewLineToken 2 0, IndentationToken True 2 3, IdToken ''y'' 2 3,
          AssignmentToken 2 5, NumberToken 1 2 7, NewLineToken 3 0,
          IndentationToken False 3 0, EndOfFileToken 3 0]"
    by code_simp
  from indent_dedent_balance [OF run] run show ?thesis
    by (simp add: countIndent_def countDedent_def)
qed

subsection \<open>Token positions\<close>

text \<open>
  The position counter of \<^verbatim>\<open>getChar\<close>: lines from 1, columns from 0, a line feed
  moves to the start of the next line. \<open>posAfter s\<close> is the counter after reading \<open>s\<close>,
  that is, the line and column of the character at offset \<open>length s\<close>.
\<close>

fun advance :: "nat \<times> nat \<Rightarrow> char \<Rightarrow> nat \<times> nat" where
  "advance (l, c) ch = (if ch = CHR 0x0A then (l + 1, 0) else (l, c + 1))"

definition posAfter :: "string \<Rightarrow> nat \<times> nat" where
  "posAfter s = foldl advance (1, 0) s"

text \<open>
  The text of a token in the source. End-of-file, indent and dedent tokens stand for no
  characters of their own.
\<close>

fun spelling :: "Token \<Rightarrow> string \<Rightarrow> bool" where
  "spelling (NumberToken v _ _) w = (w \<noteq> [] \<and> list_all isDigit w \<and> decimalValue w = v)"
| "spelling (BoolToken b _ _) w = (w = (if b then ''True'' else ''False''))"
| "spelling (IdToken s _ _) w = (w = s)"
| "spelling (NewLineToken _ _) w = (w = [CHR 0x0A] \<or> w = [CHR 0x0D])"
| "spelling (EndOfFileToken _ _) w = (w = [])"
| "spelling (ArithmeticToken op _ _) w =
     (w = (case op of ADD \<Rightarrow> ''+'' | SUB \<Rightarrow> ''-'' | MUL \<Rightarrow> ''*'' | DIV \<Rightarrow> ''//''))"
| "spelling (RelationalToken op _ _) w =
     (w = (case op of EQ \<Rightarrow> ''=='' | LT \<Rightarrow> ''<'' | GT \<Rightarrow> ''>'' | LE \<Rightarrow> ''<=''
                    | GE \<Rightarrow> ''>='' | NEQ \<Rightarrow> ''!=''))"
| "spelling (BoolOpToken op _ _) w =
     (w = (case op of AND \<Rightarrow> ''and'' | OR \<Rightarrow> ''or'' | NOT \<Rightarrow> ''not''))"
| "spelling (ReservedKeywordToken k _ _) w =
     (w = (case k of IF \<Rightarrow> ''if'' | ELIF \<Rightarrow> ''elif'' | ELSE \<Rightarrow> ''else'' | WHILE \<Rightarrow> ''while''
                   | CONTINUE \<Rightarrow> ''continue'' | BREAK \<Rightarrow> ''break'' | LIST \<Rightarrow> ''list''
                   | APPEND \<Rightarrow> ''append'' | PRINT \<Rightarrow> ''print''))"
| "spelling (IndentationToken _ _ _) w = (w = [])"
| "spelling (AssignmentToken _ _) w = (w = ''='')"
| "spelling (PunctuationToken p _ _) w =
     (w = (case p of COL \<Rightarrow> '':'' | LPAR \<Rightarrow> ''('' | RPAR \<Rightarrow> '')'' | PERIOD \<Rightarrow> ''.''
                   | LBRACK \<Rightarrow> ''['' | RBRACK \<Rightarrow> '']''))"

text \<open>
  \<open>atFirstByte src t\<close>: the token's text is the characters of \<open>src\<close> from offset \<open>j\<close> up
  to offset \<open>k\<close>, and the token carries the position of offset \<open>j\<close>, its first byte.
\<close>

definition atFirstByte :: "string \<Rightarrow> Token \<Rightarrow> bool" where
  "atFirstByte src t =
     (\<exists>k \<in> {..length src}. \<exists>j \<in> {..k}.
        spelling t (drop j (take k src)) \<and> (getLine t, getColumn t) = posAfter (take j src))"

text \<open>
  Where the tokens of a run lie in the source. Between two tokens the lexer skips blanks
  only (spaces, and tabs at the start of a line); \<open>skipBlanks src off\<close> is the offset of
  the first character at or after \<open>off\<close> that is not a blank, or the length of \<open>src\<close>.
\<close>

definition isBlank :: "char \<Rightarrow> bool" where
  "isBlank c = (c = CHR '' '' \<or> c = CHR 0x09)"

definition skipBlanks :: "string \<Rightarrow> nat \<Rightarrow> nat" where
  "skipBlanks src off = off + length (takeWhile isBlank (drop off src))"

text \<open>
  \<open>laidOut src off ts\<close>: the tokens \<open>ts\<close> are the rest of the token vector from offset
  \<open>off\<close> of \<open>src\<close> on, in order, each with the position the lexer stores.
  \<^item> A token with a text starts at the first non-blank offset \<open>j\<close>, its text is the source
    from \<open>j\<close> to some \<open>k > j\<close>, it carries the position of offset \<open>k\<close> (just past its last
    byte), and the rest of the vector goes on from \<open>k\<close>.
  \<^item> An indent or dedent token takes no characters. It carries the position just past the
    first byte of the token that follows the blanks (offset \<open>j + 1\<close>): the counters when
    that byte has been read. When only blanks are left, that is the position of the end
    of the file.
  \<^item> The end-of-file token is the last one, only blanks are left, and it carries the
    position of the end of the file.
\<close>

fun laidOut :: "string \<Rightarrow> nat \<Rightarrow> Token list \<Rightarrow> bool" where
  "laidOut src off [] = False"
| "laidOut src off (EndOfFileToken l c # ts) =
     (ts = [] \<and> skipBlanks src off = length src \<and> (l, c) = posAfter src)"
| "laidOut src off (IndentationToken b l c # ts) =
     ((l, c) = posAfter (take (Suc (skipBlanks src off)) src) \<and> laidOut src off ts)"
| "laidOut src off (t # ts) =
     (\<exists>k \<in> {skipBlanks src off <.. length src}.
        spelling t (drop (skipBlanks src off) (take k src)) \<and>
        (getLine t, getColumn t) = posAfter (take k src) \<and> laidOut src k ts)"

text \<open>The same for a stretch of the vector that ends at offset \<open>e\<close>, before the end of file.\<close>

fun stretch :: "string \<Rightarrow> nat \<Rightarrow> Token list \<Rightarrow> nat \<Rightarrow> bool" where
  "stretch src off [] e = (e = off)"
| "stretch src off (EndOfFileToken l c # ts) e = False"
| "stretch src off (IndentationToken b l c # ts) e =
     ((l, c) = posAfter (take (Suc (skipBlanks src off)) src) \<and> stretch src off ts e)"
| "stretch src off (t # ts) e =
     (\<exists>k \<in> {skipBlanks src off <.. length src}.
        spelling t (drop (skipBlanks src off) (take k src)) \<and>
        (getLine t, getColumn t) = posAfter (take k src) \<and> stretch src k ts e)"

definition hasText :: "Token \<Rightarrow> bool" where
  "hasText t = (getType t \<noteq> EOF_TOKEN \<and> getType t \<noteq> INDENTATION_TOKEN)"

lemma laidOut_text:
  "hasText t \<Longrightarrow> laidOut src off (t # ts) =
     (\<exists>k \<in> {skipBlanks src off <.. length src}.
        spelling t (drop (skipBlanks src off) (take k src)) \<and>
        (getLine t, getColumn t) = posAfter (take k src) \<and> laidOut src k ts)"
  by (cases t) (simp_all add: hasText_def)

lemma stretch_text:
  "hasText t \<Longrightarrow> stretch src off (t # ts) e =
     (\<exists>k \<in> {skipBlanks src off <.. length src}.
        spelling t (drop (skipBlanks src off) (take k src)) \<and>
        (getLine t, getColumn t) = posAfter (take k src) \<and> stretch src k ts e)"
  by (cases t) (simp_all add: hasText_def)

lemma stretch_append:
  "stretch src a ts b \<Longrightarrow> stretch src b ts' c \<Longrightarrow> stretch src a (ts @ ts') c"
proof (induction ts arbitrary: a)
  case Nil
  then show ?case by simp
next
  case (Cons t ts)
  show ?case
  proof (cases "hasText t")
    case True
    with Cons show ?thesis by (auto simp: stretch_text)
  next
    case False
    with Cons show ?thesis by (cases t) (auto simp: hasText_def)
  qed
qed

lemma stretch_laidOut:
  "stretch src a ts b \<Longrightarrow> laidOut src b ts' \<Longrightarrow> laidOut src a (ts @ ts')"
proof (induction ts arbitrary: a)
  case Nil
  then show ?case by simp
next
  case (Cons t ts)
  show ?case
  proof (cases "hasText t")
    case True
    with Cons show ?thesis by (auto simp: stretch_text laidOut_text)
  next
    case False
    with Cons show ?thesis by (cases t) (auto simp: hasText_def)
  qed
qed

lemma skipBlanks_gap:
  assumes "src = pre @ gap @ ch # rest" and "list_all isBlank gap" and "\<not> isBlank ch"
  shows "skipBlanks src (length pre) = length pre + length gap"
proof -
  from assms(2,3) have "takeWhile isBlank (gap @ ch # rest) = gap"
    by (induction gap) simp_all
  with assms(1) show ?thesis by (simp add: skipBlanks_def)
qed

lemma skipBlanks_end:
  assumes "src = pre @ gap" and "list_all isBlank gap"
  shows "skipBlanks src (length pre) = length src"
  using assms by (simp add: skipBlanks_def list_all_iff takeWhile_eq_all_conv [THEN iffD2])

lemma posAfter_snoc: "posAfter (s @ [ch]) = advance (posAfter s) ch"
  by (simp add: posAfter_def)

lemma posAfter_append: "posAfter (s @ w) = foldl advance (posAfter s) w"
  by (simp add: posAfter_def)


text \<open>
  What holds between two rounds of the loop: the characters read so far are \<open>pre @ gap\<close>,
  the tokens pushed so far lie in \<open>pre\<close>, \<open>gap\<close> is blanks, and the counters are those of
  the characters read.
\<close>

definition tracked :: "string \<Rightarrow> Frame \<Rightarrow> bool" where
  "tracked src st =
     (\<exists>pre gap. src = pre @ gap @ input st \<and> list_all isBlank gap \<and>
        (line st, column st) = posAfter (pre @ gap) \<and> stretch src 0 (res st) (length pre))"

text \<open>The same in the middle of a round, after \<^verbatim>\<open>getChar\<close> has read \<open>ch\<close>.\<close>

definition reading :: "string \<Rightarrow> string \<Rightarrow> string \<Rightarrow> char \<Rightarrow> Frame \<Rightarrow> bool" where
  "reading src pre gap ch st =
     (src = pre @ gap @ ch # input st \<and> list_all isBlank gap \<and>
      (line st, column st) = posAfter (pre @ gap @ [ch]) \<and>
      stretch src 0 (res st) (length pre))"

definition tracks :: "string \<Rightarrow> Frame result \<Rightarrow> bool" where
  "tracks src r = (case r of Inl _ \<Rightarrow> True | Inr st' \<Rightarrow> tracked src st')"

lemma tracks_simps [simp]: "tracks src (Inl e)" "tracks src (Inr st') = tracked src st'"
  by (simp_all add: tracks_def)

lemma tracked_newLexer: "tracked src (newLexer src)"
  unfolding tracked_def
  by (rule exI [of _ "[]"], rule exI [of _ "[]"]) (simp add: newLexer_def posAfter_def)

lemma tracked_getChar:
  assumes "tracked src st" and "getChar st = Some (ch, st1)"
  shows "\<exists>pre gap. reading src pre gap ch st1"
proof -
  from assms(1) obtain pre gap where pre: "src = pre @ gap @ input st" "list_all isBlank gap"
      "(line st, column st) = posAfter (pre @ gap)" "stretch src 0 (res st) (length pre)"
    unfolding tracked_def by blast
  from assms(2) have step: "input st = ch # input st1" "res st1 = res st"
    "(line st1, column st1) = advance (line st, column st) ch"
    by (auto simp: getChar_def split: list.splits if_splits)
  have "posAfter (pre @ gap @ [ch]) = advance (posAfter (pre @ gap)) ch"
    using posAfter_snoc [of "pre @ gap" ch] by simp
  with pre step have "reading src pre gap ch st1"
    unfolding reading_def by simp
  then show ?thesis by blast
qed

lemma reading_blank:
  assumes "reading src pre gap ch st" and "isBlank ch"
  shows "tracked src st"
  unfolding tracked_def
proof (intro exI conjI)
  from assms show "src = pre @ (gap @ [ch]) @ input st" unfolding reading_def by auto
  from assms show "list_all isBlank (gap @ [ch])" unfolding reading_def by auto
  from assms show "(line st, column st) = posAfter (pre @ gap @ [ch])"
    unfolding reading_def by auto
  from assms show "stretch src 0 (res st) (length pre)" unfolding reading_def by auto
qed

lemma reading_upd [simp]:
  "reading src pre gap ch (st\<lparr>n_t := a\<rparr>) = reading src pre gap ch st"
  "reading src pre gap ch (st\<lparr>indent := b\<rparr>) = reading src pre gap ch st"
  "reading src pre gap ch (st\<lparr>indentStack := c\<rparr>) = reading src pre gap ch st"
  "reading src pre gap ch (st\<lparr>parStack := d\<rparr>) = reading src pre gap ch st"
  by (simp_all add: reading_def)

lemma tracked_upd [simp]:
  "tracked src (st\<lparr>n_t := a\<rparr>) = tracked src st"
  "tracked src (st\<lparr>indent := b\<rparr>) = tracked src st"
  "tracked src (st\<lparr>indentStack := c\<rparr>) = tracked src st"
  "tracked src (st\<lparr>parStack := d\<rparr>) = tracked src st"
  by (simp_all add: tracked_def)

text \<open>An indent or dedent pushed while the first byte of the next token is being read.\<close>

lemma reading_push_indentation:
  assumes "reading src pre gap ch st" and "\<not> isBlank ch"
  shows "reading src pre gap ch (push_back (IndentationToken b (line st) (column st)) st)"
proof -
  from assms(1) have src: "src = pre @ gap @ ch # input st" and gap: "list_all isBlank gap"
    and pos: "(line st, column st) = posAfter (pre @ gap @ [ch])"
    and toks: "stretch src 0 (res st) (length pre)"
    unfolding reading_def by blast+
  have "skipBlanks src (length pre) = length pre + length gap"
    using src gap assms(2) by (rule skipBlanks_gap)
  moreover have "take (Suc (length pre + length gap)) src = pre @ gap @ [ch]"
    using src by simp
  ultimately have "stretch src (length pre) [IndentationToken b (line st) (column st)] (length pre)"
    using pos by simp
  with toks have "stretch src 0 (res st @ [IndentationToken b (line st) (column st)]) (length pre)"
    by (rule stretch_append)
  with src gap pos show ?thesis unfolding reading_def push_back_def by auto
qed

lemma dedentLoop_reading:
  "reading src pre gap ch st \<Longrightarrow> \<not> isBlank ch \<Longrightarrow> dedentLoop st = Inr st' \<Longrightarrow>
     reading src pre gap ch st'"
proof (induction st rule: dedentLoop.induct)
  case (1 st)
  show ?case
  proof (cases "indentStack st")
    case Nil
    with "1.prems" show ?thesis by (subst (asm) dedentLoop.simps) simp
  next
    case (Cons x xs)
    show ?thesis
    proof (cases "n_t st < last (indentStack st)")
      case False
      with Cons "1.prems" show ?thesis by (subst (asm) dedentLoop.simps) simp
    next
      case True
      let ?st1 = "push_back (IndentationToken False (line st) (column st))
                    (st\<lparr>indentStack := butlast (indentStack st)\<rparr>)"
      from True Cons "1.prems"(3) have run: "dedentLoop ?st1 = Inr st'"
        by (subst (asm) dedentLoop.simps) simp
      from "1.prems"(1) have "reading src pre gap ch (st\<lparr>indentStack := butlast (indentStack st)\<rparr>)"
        by simp
      from reading_push_indentation [OF this "1.prems"(2), of False]
      have "reading src pre gap ch ?st1" by simp
      with "1.IH" [OF Cons True] "1.prems"(2) run show ?thesis by simp
    qed
  qed
qed

lemma indentation_reading:
  assumes "reading src pre gap ch st" and "indentation ch st = Inr fl"
  shows "reading src pre gap ch (case fl of Continue s \<Rightarrow> s | Next s \<Rightarrow> s)"
proof (cases "(ch \<noteq> CHR '' '' \<and> ch \<noteq> CHR 0x09 \<and> ch \<noteq> CHR 0x0A \<and> ch \<noteq> CHR 0x0D) \<and> indent st")
  case False
  with assms show ?thesis
    by (auto simp: indentation_def split: if_splits)
next
  case True
  then have nb: "\<not> isBlank ch" by (simp add: isBlank_def)
  let ?st1 = "st\<lparr>indent := False\<rparr>"
  have r1: "reading src pre gap ch ?st1" using assms(1) by simp
  from reading_push_indentation [OF r1 nb, of True]
  have push: "reading src pre gap ch
      (push_back (IndentationToken True (line st) (column st))
         (st\<lparr>indent := False, indentStack := indentStack st @ [n_t st]\<rparr>))"
    unfolding reading_def push_back_def by auto
  show ?thesis
  proof (cases "dedentLoop ?st1")
    case (Inl e)
    with assms push show ?thesis
      by (auto simp: indentation_def Let_def bindR_def split: if_splits list.splits)
  next
    case (Inr st2)
    from dedentLoop_reading [OF r1 nb Inr] have "reading src pre gap ch st2" .
    with assms push Inr show ?thesis
      by (auto simp: indentation_def Let_def bindR_def split: if_splits list.splits)
  qed
qed

lemma readWhile_reads:
  "readWhile p w st = (w', st') \<Longrightarrow>
     \<exists>more. w' = w @ more \<and> input st = more @ input st' \<and> list_all p more \<and>
            (line st', column st') = foldl advance (line st, column st) more \<and>
            res st' = res st"
proof (induction p w st rule: readWhile.induct)
  case (1 p word lx)
  show ?case
  proof (cases "peekIs p lx")
    case False
    with "1.prems" show ?thesis by (simp add: readWhile.simps)
  next
    case True
    show ?thesis
    proof (cases "getChar lx")
      case None
      with True "1.prems" show ?thesis by (simp add: readWhile.simps)
    next
      case (Some a)
      obtain ch lx1 where a: "a = (ch, lx1)" by (cases a)
      from True Some a "1.prems" have run: "readWhile p (word @ [ch]) lx1 = (w', st')"
        by (simp add: readWhile.simps)
      from "1.IH" [OF True Some a [symmetric] run] obtain more where
        more: "w' = (word @ [ch]) @ more" "input lx1 = more @ input st'" "list_all p more"
          "(line st', column st') = foldl advance (line lx1, column lx1) more"
          "res st' = res lx1"
        by blast
      from Some a True have step: "input lx = ch # input lx1" "p ch"
        "(line lx1, column lx1) = advance (line lx, column lx) ch" "res lx1 = res lx"
        by (auto simp: getChar_def peekIs_def peek_def split: list.splits if_splits)
      from more step have "w' = word @ (ch # more) \<and> input lx = (ch # more) @ input st' \<and>
          list_all p (ch # more) \<and>
          (line st', column st') = foldl advance (line lx, column lx) (ch # more) \<and>
          res st' = res lx"
        by simp
      then show ?thesis by blast
    qed
  qed
qed

lemma newToken_spelling:
  "newBoolOpToken w l c = Inr t \<Longrightarrow>
     spelling t w \<and> getLine t = l \<and> getColumn t = c \<and> hasText t"
  "newReservedKeywordToken w l c = Inr t \<Longrightarrow>
     spelling t w \<and> getLine t = l \<and> getColumn t = c \<and> hasText t"
  by (auto simp: newBoolOpToken_def newReservedKeywordToken_def hasText_def split: if_splits)

lemma newNumberToken_spelling:
  "newNumberToken w l c = Inr t \<Longrightarrow> w \<noteq> [] \<Longrightarrow> list_all isDigit w \<Longrightarrow>
     spelling t w \<and> getLine t = l \<and> getColumn t = c \<and> hasText t"
  by (auto simp: newNumberToken_def hasText_def split: if_splits)

lemma hasText_simps [simp]:
  "hasText (BoolToken b l c)" "hasText (IdToken s l c)" "hasText (NewLineToken l c)"
  "hasText (ArithmeticToken a l c)" "hasText (RelationalToken r l c)"
  "hasText (AssignmentToken l c)" "hasText (PunctuationToken p l c)"
  by (simp_all add: hasText_def)

lemma input_consume: "peek st = Some c2 \<Longrightarrow> input st = c2 # input (consume st)"
  by (auto simp: peek_def consume_def getChar_def split: list.splits)

lemma pos_consume:
  "peek st = Some c2 \<Longrightarrow> (line (consume st), column (consume st)) = advance (line st, column st) c2"
  by (auto simp: peek_def consume_def getChar_def split: list.splits)

lemma parStack_emit [simp]: "parStack (emit mk st) = parStack st"
  by (simp add: emit_def push_back_def)

lemma letter_not_blank: "isLetter ch \<Longrightarrow> \<not> isBlank ch"
  by (auto simp: isLetter_def inRange_def isBlank_def)

lemma digit_not_blank: "inRange CHR ''1'' CHR ''9'' ch \<Longrightarrow> \<not> isBlank ch"
  by (auto simp: inRange_def isBlank_def)

lemma lexeme_space: "lexeme CHR '' '' st = Inr st"
  by (simp add: lexeme_def isLetter_def inRange_def)

lemma lexeme_tab: "lexeme CHR 0x09 st = Inl (Throw (LexicalError (line st) (column st)))"
  by (simp add: lexeme_def isLetter_def inRange_def)

lemma lexeme_tracks:
  assumes rd: "reading src pre gap ch st"
  shows "tracks src (lexeme ch st)"
proof (cases "isBlank ch")
  case True
  with reading_blank [OF rd] show ?thesis
    by (auto simp: isBlank_def lexeme_space lexeme_tab)
next
  case nb: False
  from rd have src: "src = pre @ gap @ ch # input st" and gap: "list_all isBlank gap"
    and pos: "(line st, column st) = posAfter (pre @ gap @ [ch])"
    and toks: "stretch src 0 (res st) (length pre)"
    unfolding reading_def by blast+
  have skip: "skipBlanks src (length pre) = length pre + length gap"
    using src gap nb by (rule skipBlanks_gap)
  have lex: "tracked src (push_back t st1)"
    if "input st = more @ input st1" and "res st1 = res st"
      and "(line st1, column st1) = foldl advance (line st, column st) more"
      and "spelling t (ch # more)" and "getLine t = line st1" and "getColumn t = column st1"
      and "hasText t"
    for t st1 more
  proof -
    let ?k = "length pre + length gap + Suc (length more)"
    have src1: "src = (pre @ gap @ ch # more) @ input st1" using src that(1) by simp
    then have tk: "take ?k src = pre @ gap @ ch # more" by simp
    have p: "(line st1, column st1) = posAfter (pre @ gap @ ch # more)"
      using that(3) pos posAfter_append [of "pre @ gap @ [ch]" more] by simp
    have "?k \<in> {skipBlanks src (length pre) <.. length src}"
      using skip src1 by simp
    moreover have "spelling t (drop (skipBlanks src (length pre)) (take ?k src))"
      using that(4) skip tk by simp
    moreover have "(getLine t, getColumn t) = posAfter (take ?k src)"
      using that(5,6) p tk by simp
    ultimately have "stretch src (length pre) [t] ?k"
      using that(7) by (auto simp: stretch_text)
    with toks have "stretch src 0 (res st @ [t]) ?k" by (rule stretch_append)
    then have "stretch src 0 (res (push_back t st1)) (length (pre @ gap @ ch # more))"
      using that(2) by (simp add: push_back_def add.assoc)
    moreover have "src = (pre @ gap @ ch # more) @ [] @ input (push_back t st1)"
      using src1 by (simp add: push_back_def)
    moreover have "(line (push_back t st1), column (push_back t st1)) =
        posAfter ((pre @ gap @ ch # more) @ [])"
      using p by (simp add: push_back_def)
    ultimately show ?thesis
      unfolding tracked_def by (intro exI [of _ "pre @ gap @ ch # more"] exI [of _ "[]"]) simp
  qed
  have single: "tracked src (emit mk st)"
    if "\<forall>l c. spelling (mk l c) [ch] \<and> getLine (mk l c) = l \<and> getColumn (mk l c) = c \<and>
               hasText (mk l c)" for mk
    unfolding emit_def using that by (intro lex [where more = "[]"]) simp_all
  have double: "tracked src (emit mk (consume st))"
    if "peek st = Some c2"
      and "\<forall>l c. spelling (mk l c) [ch, c2] \<and> getLine (mk l c) = l \<and> getColumn (mk l c) = c \<and>
                 hasText (mk l c)"
    for mk c2
    unfolding emit_def using that input_consume [OF that(1)] pos_consume [OF that(1)]
    by (intro lex [where more = "[c2]"]) simp_all
  have word: "tracks src (word_branch ch st)"
  proof -
    obtain w st1 where rw: "readWhile (\<lambda>c. isLetter c \<or> isDigit c) [ch] st = (w, st1)"
      by (cases "readWhile (\<lambda>c. isLetter c \<or> isDigit c) [ch] st")
    from readWhile_reads [OF rw] obtain more where
      more: "w = ch # more" "input st = more @ input st1"
        "(line st1, column st1) = foldl advance (line st, column st) more" "res st1 = res st"
      by auto
    have t: "tracked src (push_back t st1)"
      if "spelling t w \<and> getLine t = line st1 \<and> getColumn t = column st1 \<and> hasText t" for t
      using that more by (intro lex [where more = more]) simp_all
    have "tracks src (bindR r (\<lambda>t. Inr (push_back t st1)))"
      if "\<And>t. r = Inr t \<Longrightarrow>
            spelling t w \<and> getLine t = line st1 \<and> getColumn t = column st1 \<and> hasText t"
      for r
      using that t by (cases r) (simp_all add: bindR_def)
    note b = this
    show ?thesis
      by (simp add: word_branch_def rw b newToken_spelling emit_def t)
  qed
  have number: "tracks src (number_branch ch st)" if "inRange CHR ''1'' CHR ''9'' ch"
  proof -
    obtain w st1 where rw: "readWhile isDigit [ch] st = (w, st1)"
      by (cases "readWhile isDigit [ch] st")
    from readWhile_reads [OF rw] obtain more where
      more: "w = ch # more" "input st = more @ input st1" "list_all isDigit more"
        "(line st1, column st1) = foldl advance (line st, column st) more" "res st1 = res st"
      by auto
    from that have "isDigit ch" by (simp add: isDigit_def inRange_def)
    with more have dig: "w \<noteq> []" "list_all isDigit w" by simp_all
    show ?thesis
    proof (cases "newNumberToken w (line st1) (column st1)")
      case (Inl e)
      then show ?thesis by (simp add: number_branch_def rw bindR_def)
    next
      case (Inr t)
      from newNumberToken_spelling [OF Inr dig] more
      have "tracked src (push_back t st1)" by (intro lex [where more = more]) simp_all
      with Inr show ?thesis by (simp add: number_branch_def rw bindR_def)
    qed
  qed
  have zero: "tracks src (bindR (newNumberToken ''0'' (line st) (column st)) (\<lambda>t. Inr (push_back t st)))"
    if "ch = CHR ''0''"
  proof (cases "newNumberToken ''0'' (line st) (column st)")
    case (Inl e)
    then show ?thesis by (simp add: bindR_def)
  next
    case (Inr t)
    have "list_all isDigit ''0''" by (simp add: isDigit_def inRange_def)
    with newNumberToken_spelling [OF Inr] that
    have "tracked src (push_back t st)" by (intro lex [where more = "[]"]) simp_all
    with Inr show ?thesis by (simp add: bindR_def)
  qed
  from nb have ns: "ch \<noteq> CHR '' ''" by (simp add: isBlank_def)
  show ?thesis
    unfolding lexeme_def
    by (simp add: Let_def ns single double word number zero split: list.split)
qed


lemma iteration_tracked:
  assumes "reading src pre gap ch st" and "iteration ch st = Inr st'"
  shows "tracked src st'"
proof (cases "indentation ch st")
  case (Inl e)
  with assms show ?thesis by (simp add: iteration_def bindR_def)
next
  case (Inr fl)
  note rd = indentation_reading [OF assms(1) Inr]
  show ?thesis
  proof (cases fl)
    case (Continue s)
    with Inr assms(2) have s: "s = st'" by (simp add: iteration_def bindR_def)
    from Inr Continue have "isBlank ch"
      by (auto simp: indentation_def isBlank_def Let_def bindR_def
               split: if_splits list.splits sum.splits)
    with rd Continue s show ?thesis by (simp add: reading_blank)
  next
    case (Next s)
    with Inr assms have lx: "lexeme ch s = Inr st'" by (simp add: iteration_def bindR_def)
    from rd Next have "reading src pre gap ch s" by simp
    from lexeme_tracks [OF this] lx show ?thesis by simp
  qed
qed

lemma tokenizeLoop_reads_all: "tokenizeLoop st = Inr st' \<Longrightarrow> input st' = []"
proof (induction st rule: tokenizeLoop.induct)
  case (1 st)
  show ?case
  proof (cases "getChar st")
    case None
    with "1.prems" show ?thesis
      by (auto simp: tokenizeLoop.simps getChar_def split: list.splits if_splits)
  next
    case (Some a)
    obtain ch st1 where a: "a = (ch, st1)" by (cases a)
    show ?thesis
    proof (cases "iteration ch st1")
      case (Inl e)
      with Some a "1.prems" show ?thesis by (simp add: tokenizeLoop.simps)
    next
      case (Inr st2)
      with Some a "1.prems" have "tokenizeLoop st2 = Inr st'" by (simp add: tokenizeLoop.simps)
      with "1.IH" [OF Some a [symmetric] Inr] show ?thesis by simp
    qed
  qed
qed

text \<open>At the end of the file the counters are those of the whole source.\<close>

definition finished :: "string \<Rightarrow> Frame \<Rightarrow> bool" where
  "finished src st =
     (\<exists>pre gap. src = pre @ gap \<and> list_all isBlank gap \<and>
        (line st, column st) = posAfter src \<and> stretch src 0 (res st) (length pre))"

lemma tracked_finished: "tracked src st \<Longrightarrow> input st = [] \<Longrightarrow> finished src st"
  unfolding tracked_def finished_def by auto

lemma finished_push_dedent:
  assumes "finished src st"
  shows "finished src (push_back (IndentationToken False (line st) (column st))
                        (st\<lparr>indentStack := stk\<rparr>))"
proof -
  from assms obtain pre gap where src: "src = pre @ gap" and gap: "list_all isBlank gap"
    and pos: "(line st, column st) = posAfter src" and toks: "stretch src 0 (res st) (length pre)"
    unfolding finished_def by blast
  have "skipBlanks src (length pre) = length src" using src gap by (rule skipBlanks_end)
  with pos have "stretch src (length pre) [IndentationToken False (line st) (column st)] (length pre)"
    by simp
  with toks have "stretch src 0 (res st @ [IndentationToken False (line st) (column st)]) (length pre)"
    by (rule stretch_append)
  with src gap pos show ?thesis unfolding finished_def push_back_def by auto
qed

lemma drainIndentStack_finished: "finished src st \<Longrightarrow> finished src (drainIndentStack st)"
proof (induction st rule: drainIndentStack.induct)
  case (1 st)
  show ?case
  proof (cases "length (indentStack st) > 1")
    case False
    with "1.prems" show ?thesis by (subst drainIndentStack.simps) simp
  next
    case True
    from "1.IH" [OF True finished_push_dedent [OF "1.prems"]] True show ?thesis
      by (subst drainIndentStack.simps) simp
  qed
qed

text \<open>
  Claim C4, as the code has it. The tokens of a successful run lie in the source in the
  order of the vector, with blanks only between them, and each token that has a text
  carries the position just past the last byte of that text (lines from 1, columns from
  0): the counters after \<^verbatim>\<open>getChar\<close> has read the token, not the position of its first
  byte. An indent or dedent token carries the position just past the first byte of the
  token that follows it, the end-of-file token and the dedents before it the position of
  the end of the file.
\<close>

theorem token_position_past_last_byte:
  assumes "tokenizeInputFile src = Inr toks"
  shows "laidOut src 0 toks"
proof -
  from assms obtain st where run: "tokenizeLoop (newLexer src) = Inr st"
    and toks: "toks = res (emit EndOfFileToken (drainIndentStack st))"
    by (auto simp: tokenizeInputFile_def bindR_def split: sum.splits if_splits)
  have "tracked src st"
  proof (rule tokenizeLoop_invariant [where I = "tracked src", OF _ tracked_newLexer run])
    fix s :: Frame and ch s1 s2
    assume "tracked src s" and "getChar s = Some (ch, s1)" and it: "iteration ch s1 = Inr s2"
    then obtain pre gap where "reading src pre gap ch s1" using tracked_getChar by blast
    then show "tracked src s2" using it by (rule iteration_tracked)
  qed
  with tokenizeLoop_reads_all [OF run] have "finished src st" by (simp add: tracked_finished)
  then have "finished src (drainIndentStack st)" by (rule drainIndentStack_finished)
  then obtain pre gap where src: "src = pre @ gap" and gap: "list_all isBlank gap"
    and pos: "(line (drainIndentStack st), column (drainIndentStack st)) = posAfter src"
    and stretch: "stretch src 0 (res (drainIndentStack st)) (length pre)"
    unfolding finished_def by blast
  have "skipBlanks src (length pre) = length src" using src gap by (rule skipBlanks_end)
  with pos have "laidOut src (length pre)
      [EndOfFileToken (line (drainIndentStack st)) (column (drainIndentStack st))]"
    by simp
  with stretch have "laidOut src 0 (res (drainIndentStack st) @
      [EndOfFileToken (line (drainIndentStack st)) (column (drainIndentStack st))])"
    by (rule stretch_laidOut)
  with toks show ?thesis by (simp add: emit_def push_back_def)
qed

theorem token_position_past_last_byte_witness:
  "tokenizeInputFile ''if x:\<newline>  y = 1\<newline>'' =
     Inr [ReservedKeywordToken IF 1 2, IdToken ''x'' 1 4, PunctuationToken COL 1 5,
          NewLineToken 2 0, IndentationToken True 2 3, IdToken ''y'' 2 3,
          AssignmentToken 2 5, NumberToken 1 2 7, NewLineToken 3 0,
          IndentationToken False 3 0, EndOfFileToken 3 0] \<and>
   laidOut ''if x:\<newline>  y = 1\<newline>'' 0
         [ReservedKeywordToken IF 1 2, IdToken ''x'' 1 4, PunctuationToken COL 1 5,
          NewLineToken 2 0, IndentationToken True 2 3, IdToken ''y'' 2 3,
          AssignmentToken 2 5, NumberToken 1 2 7, NewLineToken 3 0,
          IndentationToken False 3 0, EndOfFileToken 3 0]"
proof -
  have run: "tokenizeInputFile ''if x:\<newline>  y = 1\<newline>'' =
     Inr [ReservedKeywordToken IF 1 2, IdToken ''x'' 1 4, PunctuationToken COL 1 5,
          NewLineToken 2 0, IndentationToken True 2 3, IdToken ''y'' 2 3,
          AssignmentToken 2 5, NumberToken 1 2 7, NewLineToken 3 0,
          IndentationToken False 3 0, EndOfFileToken 3 0]"
    by code_simp
  from token_position_past_last_byte [OF run] run show ?thesis by simp
qed

text \<open>
  The claim as the specification words it fails on the one-letter source \<^verbatim>\<open>x\<close>: the
  identifier starts at line 1, column 0 and is stored with column 1.
\<close>

theorem token_position_first_byte_counterexample:
  "tokenizeInputFile ''x'' = Inr [IdToken ''x'' 1 1, EndOfFileToken 1 1] \<and>
   posAfter [] = (1, 0) \<and> \<not> atFirstByte ''x'' (IdToken ''x'' 1 1)"
proof -
  have "tokenizeInputFile ''x'' = Inr [IdToken ''x'' 1 1, EndOfFileToken 1 1]"
    by code_simp
  moreover have "posAfter [] = (1, 0)"
    by (simp add: posAfter_def)
  moreover have "\<not> atFirstByte ''x'' (IdToken ''x'' 1 1)"
    by (simp add: atFirstByte_def posAfter_def atMost_Suc)
  ultimately show ?thesis by simp
qed

lemma bex_greaterThanAtMost_upt: "(\<exists>k \<in> {a<..b}. P k) = list_ex P [Suc a..<Suc b]"
proof -
  have "{a<..b} = set [Suc a..<Suc b]" by auto
  then show ?thesis by (simp only: list_ex_iff)
qed

text \<open>
  A carriage return makes a newline token too, and \<^verbatim>\<open>getChar\<close> only moves the column
  for it: the token after \<^verbatim>\<open>x\<close> stays on line 1.
\<close>

lemma tokenize_carriage_return:
  "tokenizeInputFile (CHR ''x'' # CHR 0x0D # CHR 0x0A # ''y'') =
     Inr [IdToken ''x'' 1 1, NewLineToken 1 2, NewLineToken 2 0, IdToken ''y'' 2 1,
          EndOfFileToken 2 1]"
  by code_simp

text \<open>The layout fixes which token carries which position.\<close>

lemma laidOut_refuses_swapped_stamps:
  "\<not> laidOut ''x x'' 0 [IdToken ''x'' 1 3, IdToken ''x'' 1 1, EndOfFileToken 1 3]"
  by (simp add: bex_greaterThanAtMost_upt skipBlanks_def isBlank_def posAfter_def upt_rec)

lemma laidOut_refuses_other_stamps:
  "\<not> laidOut ''if x:\<newline>  y = 1\<newline>'' 0
         [ReservedKeywordToken IF 1 2, IdToken ''x'' 1 4, PunctuationToken COL 1 5,
          NewLineToken 2 0, IndentationToken True 1 0, IdToken ''y'' 2 3,
          AssignmentToken 2 5, NumberToken 1 2 7, NewLineToken 3 0,
          IndentationToken False 1 0, EndOfFileToken 1 0]"
  by (simp add: bex_greaterThanAtMost_upt skipBlanks_def isBlank_def posAfter_def upt_rec)

section \<open>Properties of the evaluator\<close>

subsection \<open>Short-circuit evaluation\<close>

text \<open>
  Claim C2 as the specification words it fails: with \<^verbatim>\<open>x\<close> undefined, \<^verbatim>\<open>True or x\<close> and
  \<^verbatim>\<open>False and x\<close> both raise \<^verbatim>\<open>SemanticError\<close>, from the type check of the right operand.
\<close>

theorem short_circuit_undefined_name_counterexample:
  "eval newSymbolTable (OrExpr (BoolFactor True (1, 4)) (IdLocation ''x'' (1, 9)) (1, 9)) =
     Inl (Throw (Error 1 9 SEMANTIC_ERROR)) \<and>
   eval newSymbolTable (AndExpr (BoolFactor False (1, 5)) (IdLocation ''x'' (1, 11)) (1, 11)) =
     Inl (Throw (Error 1 11 SEMANTIC_ERROR))"
  by (simp add: bindR_def throwAt_def SemanticError_def isVariableDefined_def newSymbolTable_def)

text \<open>
  Claim C2, as the code has it. \<^verbatim>\<open>True or E\<close> and \<^verbatim>\<open>False and E\<close> depend on \<open>E\<close>
  through \<^verbatim>\<open>getDataType\<close> only: they raise what the type check of \<open>E\<close> raises, raise
  \<^verbatim>\<open>TypeError\<close> at the operator when \<open>E\<close> is not boolean, and otherwise yield \<^verbatim>\<open>True\<close>
  and \<^verbatim>\<open>False\<close> without evaluating \<open>E\<close>.
\<close>

theorem short_circuit_after_type_check:
  "eval st (OrExpr (BoolFactor True q) E p) =
     (case getDataType st E of
        Inl e \<Rightarrow> Inl e
      | Inr t \<Rightarrow> if t = TYPE_BOOL then Inr (BoolElement True)
                 else Inl (Throw (Error (fst p) (snd p) TYPE_ERROR))) \<and>
   eval st (AndExpr (BoolFactor False q) E p) =
     (case getDataType st E of
        Inl e \<Rightarrow> Inl e
      | Inr t \<Rightarrow> if t = TYPE_BOOL then Inr (BoolElement False)
                 else Inl (Throw (Error (fst p) (snd p) TYPE_ERROR)))"
  by (simp add: bindR_def throwAt_def TypeError_def split: sum.split)

text \<open>
  An instance: \<^verbatim>\<open>1 // 0 == 1\<close> has type bool and its evaluation divides by zero, yet
  \<^verbatim>\<open>True or 1 // 0 == 1\<close> is \<^verbatim>\<open>True\<close>.
\<close>

theorem short_circuit_after_type_check_witness:
  "eval newSymbolTable
     (EqualExpr (MulDivTerm (NumberFactor 1 (1, 9)) DIV_TERM (NumberFactor 0 (1, 14)) (1, 14))
        EQ_EXPR (NumberFactor 1 (1, 19)) (1, 19)) =
     Inl (Throw (Error 1 14 ZERO_DIVISION)) \<and>
   eval newSymbolTable
     (OrExpr (BoolFactor True (1, 4))
        (EqualExpr (MulDivTerm (NumberFactor 1 (1, 9)) DIV_TERM (NumberFactor 0 (1, 14)) (1, 14))
           EQ_EXPR (NumberFactor 1 (1, 19)) (1, 19)) (1, 19)) =
     Inr (BoolElement True)"
  using short_circuit_after_type_check
    [of newSymbolTable "(1, 4)"
      "EqualExpr (MulDivTerm (NumberFactor 1 (1, 9)) DIV_TERM (NumberFactor 0 (1, 14)) (1, 14))
         EQ_EXPR (NumberFactor 1 (1, 19)) (1, 19)" "(1, 19)"]
  by (simp add: bindR_def throwAt_def ZeroDivisionError_def)

subsection \<open>Indexed read\<close>



text \<open>
  When \<^verbatim>\<open>id[e]\<close> is an operand, the type check of the operator reads the element first,
  through \<^verbatim>\<open>SymbolTable::getListElement\<close>: out of range that is \<^verbatim>\<open>InternalError(0, 0)\<close>,
  and \<^verbatim>\<open>eval\<close> is not reached for \<^verbatim>\<open>id[e]\<close>.
\<close>

lemma getDataType_indexed_out_of_range:
  assumes "lists st ident = Some xs" and "eval st e = Inr (IntElement i)"
    and "i < 0 \<or> int (length xs) \<le> i"
  shows "getDataType st (ListElementLocation ident e p) = Inl (Throw (Error 0 0 INTERNAL_ERROR))"
  using assms
  by (auto simp: bindR_def isListDefined_def getListElement_def InternalError_def)



subsection \<open>List declaration\<close>

text \<open>
  Claim C6. \<^verbatim>\<open>id = list()\<close>: when \<^verbatim>\<open>id\<close> is already an int variable, a bool variable
  or a list, the statement raises an error of category \<^verbatim>\<open>SEMANTIC_ERROR\<close> at its position
  and the visitor, with its symbol table, is as before; otherwise the statement returns
  and the only change is that \<^verbatim>\<open>id\<close> is bound to the empty list.
\<close>

theorem list_declaration:
  "visitStatement (Suc n) (ListDeclarationStatement ident p) v =
     (if intVariables (symbolTable v) ident \<noteq> None \<or> boolVariables (symbolTable v) ident \<noteq> None \<or>
         lists (symbolTable v) ident \<noteq> None
      then Some (Inl (Throw (Error (fst p) (snd p) SEMANTIC_ERROR)), v)
      else Some (Inr (), v\<lparr>symbolTable := (symbolTable v)\<lparr>lists := (lists (symbolTable v))(ident \<mapsto> [])\<rparr>\<rparr>))"
  by (simp add: visitListDeclarationStatement_def isAlreadyDefined_def isVariableDefined_def
        isListDefined_def addList_def throwAt_def SemanticError_def)

theorem list_declaration_witness:
  "visitStatement 1 (ListDeclarationStatement ''L'' (1, 10)) newVisitor =
     Some (Inr (), newVisitor\<lparr>symbolTable := newSymbolTable\<lparr>lists := [''L'' \<mapsto> []]\<rparr>\<rparr>) \<and>
   visitStatement 1 (ListDeclarationStatement ''L'' (2, 10))
     (newVisitor\<lparr>symbolTable := newSymbolTable\<lparr>lists := [''L'' \<mapsto> []]\<rparr>\<rparr>) =
     Some (Inl (Throw (Error 2 10 SEMANTIC_ERROR)),
           newVisitor\<lparr>symbolTable := newSymbolTable\<lparr>lists := [''L'' \<mapsto> []]\<rparr>\<rparr>) \<and>
   visitStatement 1 (ListDeclarationStatement ''x'' (2, 10))
     (newVisitor\<lparr>symbolTable := newSymbolTable\<lparr>intVariables := [''x'' \<mapsto> 7]\<rparr>\<rparr>) =
     Some (Inl (Throw (Error 2 10 SEMANTIC_ERROR)),
           newVisitor\<lparr>symbolTable := newSymbolTable\<lparr>intVariables := [''x'' \<mapsto> 7]\<rparr>\<rparr>)"
  using list_declaration [of 0 "''L''" "(1, 10)" newVisitor]
    list_declaration [of 0 "''L''" "(2, 10)"
      "newVisitor\<lparr>symbolTable := newSymbolTable\<lparr>lists := [''L'' \<mapsto> []]\<rparr>\<rparr>"]
    list_declaration [of 0 "''x''" "(2, 10)"
      "newVisitor\<lparr>symbolTable := newSymbolTable\<lparr>intVariables := [''x'' \<mapsto> 7]\<rparr>\<rparr>"]
  by (simp add: newVisitor_def newSymbolTable_def)

subsection \<open>One slot per name\<close>

text \<open>
  A name is in at most one of the three maps of the symbol table.
\<close>

definition oneSlot :: "SymbolTable \<Rightarrow> bool" where
  "oneSlot st =
     (\<forall>ident. \<not> (intVariables st ident \<noteq> None \<and> boolVariables st ident \<noteq> None) \<and>
              \<not> (intVariables st ident \<noteq> None \<and> lists st ident \<noteq> None) \<and>
              \<not> (boolVariables st ident \<noteq> None \<and> lists st ident \<noteq> None))"

lemma oneSlot_new: "oneSlot newSymbolTable"
  by (simp add: oneSlot_def newSymbolTable_def)

lemma oneSlotD:
  "oneSlot st \<Longrightarrow> intVariables st ident = None \<or> boolVariables st ident = None"
  "oneSlot st \<Longrightarrow> intVariables st ident = None \<or> lists st ident = None"
  "oneSlot st \<Longrightarrow> boolVariables st ident = None \<or> lists st ident = None"
  by (auto simp: oneSlot_def)

lemma oneSlot_updateVariable:
  assumes "oneSlot st" and "Visitor_updateVariable ident val st = Inr st'"
  shows "oneSlot st'"
  unfolding oneSlot_def
proof
  fix x
  from assms(2) oneSlotD [OF assms(1), of x] oneSlotD [OF assms(1), of ident]
  show "\<not> (intVariables st' x \<noteq> None \<and> boolVariables st' x \<noteq> None) \<and>
        \<not> (intVariables st' x \<noteq> None \<and> lists st' x \<noteq> None) \<and>
        \<not> (boolVariables st' x \<noteq> None \<and> lists st' x \<noteq> None)"
    by (cases val)
       (auto simp: Visitor_updateVariable_def updateVariableInt_def updateVariableBool_def
             split: if_splits)
qed

lemma oneSlot_addVariable:
  assumes "oneSlot st" and "lists st ident = None"
    and "Visitor_addVariable ident val st = Inr st'"
  shows "oneSlot st'"
  unfolding oneSlot_def
proof
  fix x
  from assms(2,3) oneSlotD [OF assms(1), of x]
  show "\<not> (intVariables st' x \<noteq> None \<and> boolVariables st' x \<noteq> None) \<and>
        \<not> (intVariables st' x \<noteq> None \<and> lists st' x \<noteq> None) \<and>
        \<not> (boolVariables st' x \<noteq> None \<and> lists st' x \<noteq> None)"
    by (cases val)
       (auto simp: Visitor_addVariable_def addVariableInt_def addVariableBool_def
                   isVariableDefined_def
             split: if_splits)
qed

lemma oneSlot_clear:
  assumes "oneSlot st" and "clear ident st = Inr st'"
  shows "oneSlot st' \<and> lists st' ident = None"
proof
  show "oneSlot st'"
    unfolding oneSlot_def
  proof
    fix x
    from assms(2) oneSlotD [OF assms(1), of x]
    show "\<not> (intVariables st' x \<noteq> None \<and> boolVariables st' x \<noteq> None) \<and>
          \<not> (intVariables st' x \<noteq> None \<and> lists st' x \<noteq> None) \<and>
          \<not> (boolVariables st' x \<noteq> None \<and> lists st' x \<noteq> None)"
      by (auto simp: clear_def split: if_splits)
  qed
  from assms(2) show "lists st' ident = None" by (auto simp: clear_def split: if_splits)
qed

lemma oneSlot_addList:
  assumes "oneSlot st" and "\<not> isAlreadyDefined st ident"
  shows "oneSlot (addList ident st)"
  unfolding oneSlot_def
proof
  fix x
  from assms(2) oneSlotD [OF assms(1), of x]
  show "\<not> (intVariables (addList ident st) x \<noteq> None \<and> boolVariables (addList ident st) x \<noteq> None) \<and>
        \<not> (intVariables (addList ident st) x \<noteq> None \<and> lists (addList ident st) x \<noteq> None) \<and>
        \<not> (boolVariables (addList ident st) x \<noteq> None \<and> lists (addList ident st) x \<noteq> None)"
    by (auto simp: addList_def isAlreadyDefined_def isVariableDefined_def isListDefined_def)
qed

lemma oneSlot_appendToList:
  assumes "oneSlot st" and "appendToList ident val st = Inr st'"
  shows "oneSlot st'"
  unfolding oneSlot_def
proof
  fix x
  from assms(2) oneSlotD [OF assms(1), of x]
  show "\<not> (intVariables st' x \<noteq> None \<and> boolVariables st' x \<noteq> None) \<and>
        \<not> (intVariables st' x \<noteq> None \<and> lists st' x \<noteq> None) \<and>
        \<not> (boolVariables st' x \<noteq> None \<and> lists st' x \<noteq> None)"
    by (auto simp: appendToList_def split: option.splits if_splits)
qed

lemma oneSlot_updateListElement:
  assumes "oneSlot st" and "updateListElement ident i val st = Inr st'"
  shows "oneSlot st'"
  unfolding oneSlot_def
proof
  fix x
  from assms(2) oneSlotD [OF assms(1), of x]
  show "\<not> (intVariables st' x \<noteq> None \<and> boolVariables st' x \<noteq> None) \<and>
        \<not> (intVariables st' x \<noteq> None \<and> lists st' x \<noteq> None) \<and>
        \<not> (boolVariables st' x \<noteq> None \<and> lists st' x \<noteq> None)"
    by (auto simp: updateListElement_def split: option.splits if_splits)
qed

text \<open>The statements that do not recurse.\<close>

definition slotted :: "Visitor \<Rightarrow> bool" where
  "slotted v = oneSlot (symbolTable v)"

lemma slotted_upd [simp]:
  "slotted (v\<lparr>conditionMetStack := a\<rparr>) = slotted v"
  "slotted (v\<lparr>loopStack := b\<rparr>) = slotted v"
  "slotted (v\<lparr>cout := c\<rparr>) = slotted v"
  "slotted (v\<lparr>symbolTable := st\<rparr>) = oneSlot st"
  by (simp_all add: slotted_def)

lemma slotted_withTable:
  assumes "slotted v" and "\<And>st. r = Inr st \<Longrightarrow> oneSlot st"
  shows "slotted (snd (withTable r v))"
  using assms by (cases r) (simp_all add: withTable_def)

lemma slotted_assignment:
  assumes "slotted v"
  shows "slotted (snd (visitAssignmentStatement loc expr p v))"
proof (cases loc)
  case (IdLocation ident lp)
  show ?thesis
  proof (cases "eval (symbolTable v) expr")
    case (Inl e)
    with IdLocation assms show ?thesis by (simp add: visitAssignmentStatement_def)
  next
    case (Inr val)
    let ?st = "symbolTable v"
    from assms have one: "oneSlot ?st" by (simp add: slotted_def)
    consider (upd) "isVariableDefined ?st ident"
      | (lst) "\<not> isVariableDefined ?st ident" "isListDefined ?st ident"
      | (new) "\<not> isVariableDefined ?st ident" "\<not> isListDefined ?st ident"
      by blast
    then show ?thesis
    proof cases
      case upd
      with IdLocation Inr assms one show ?thesis
        by (auto simp: visitAssignmentStatement_def intro!: slotted_withTable
                 elim: oneSlot_updateVariable)
    next
      case lst
      show ?thesis
      proof (cases "clear ident ?st")
        case (Inl e)
        with IdLocation Inr lst assms show ?thesis by (simp add: visitAssignmentStatement_def)
      next
        case st1: (Inr st1)
        from oneSlot_clear [OF one st1] have "oneSlot st1" "lists st1 ident = None" by simp_all
        then have "slotted (snd (withTable (Visitor_addVariable ident val st1)
                                   (v\<lparr>symbolTable := st1\<rparr>)))"
          by (intro slotted_withTable) (auto elim: oneSlot_addVariable)
        with IdLocation Inr lst st1 show ?thesis by (simp add: visitAssignmentStatement_def)
      qed
    next
      case new
      then have "lists ?st ident = None" by (simp add: isListDefined_def)
      with one have "slotted (snd (withTable (Visitor_addVariable ident val ?st) v))"
        using assms by (intro slotted_withTable) (auto elim: oneSlot_addVariable)
      with IdLocation Inr new show ?thesis
        by (simp add: visitAssignmentStatement_def isAlreadyDefined_def)
    qed
  qed
next
  case (ListElementLocation listId indexExpr lp)
  from assms have one: "oneSlot (symbolTable v)" by (simp add: slotted_def)
  have "slotted (snd (withTable (bindR (getIntValue iv) (\<lambda>index.
           updateListElement listId index val (symbolTable v))) v))" for iv val
    using assms one
    by (intro slotted_withTable)
       (auto simp: bindR_def split: sum.splits elim: oneSlot_updateListElement)
  with ListElementLocation assms show ?thesis
    by (simp add: visitAssignmentStatement_def Let_def split: sum.split)
qed (use assms in \<open>simp_all add: visitAssignmentStatement_def\<close>)

lemma slotted_simple_statements:
  assumes "slotted v"
  shows "slotted (snd (visitListDeclarationStatement ident p v))"
    and "slotted (snd (visitListAppendStatement ident expr p v))"
    and "slotted (snd (visitPrintStatement expr p v))"
    and "slotted (snd (visitBreakStatement p v))"
    and "slotted (snd (visitContinueStatement p v))"
    and "slotted (snd (setLoopBack b v))"
    and "slotted (snd (setConditionMetBack b v))"
    and "slotted (snd (popLoop v))"
    and "slotted (snd (popConditionMet v))"
proof -
  from assms have one: "oneSlot (symbolTable v)" by (simp add: slotted_def)
  show "slotted (snd (visitListDeclarationStatement ident p v))"
    using assms one by (simp add: visitListDeclarationStatement_def oneSlot_addList)
  have "slotted (snd (withTable (appendToList ident val (symbolTable v)) v))" for val
    using assms one by (intro slotted_withTable) (auto elim: oneSlot_appendToList)
  then show "slotted (snd (visitListAppendStatement ident expr p v))"
    using assms by (simp add: visitListAppendStatement_def split: sum.split)
  show "slotted (snd (visitPrintStatement expr p v))"
    using assms by (simp add: visitPrintStatement_def split: sum.split EvaluatedElement.split)
  have slb: "slotted (snd (setLoopBack b' v))" for b'
    using assms by (simp add: setLoopBack_def split: sum.split)
  then show "slotted (snd (setLoopBack b v))" .
  from slb show "slotted (snd (visitBreakStatement p v))"
    using assms by (simp add: visitBreakStatement_def)
  show "slotted (snd (visitContinueStatement p v))"
    using assms by (simp add: visitContinueStatement_def)
  show "slotted (snd (setConditionMetBack b v))"
    using assms by (simp add: setConditionMetBack_def split: sum.split)
  show "slotted (snd (popLoop v))"
    using assms by (simp add: popLoop_def split: sum.split)
  show "slotted (snd (popConditionMet v))"
    using assms by (simp add: popConditionMet_def split: sum.split)
qed

end
